theory Spec2Isabelle
  imports Main "HOL-Library.Word" "HOL-Library.Signed_Division"
begin

unbundle bit_operations_syntax

section \<open>Model of the erasure-coding core\<close>

type_synonym gf = "8 word"

abbreviation (input) GF_SIZE :: nat where "GF_SIZE \<equiv> 256"

record gf_tables =
  gf_exp :: "gf list"
  gf_log :: "int list"
  gf_mul_table :: "gf list"
  gf_div_table :: "gf list"

datatype error = DivisionByZero | OutOfBounds | Uninitialised | NonTermination

definition bind_res :: "error + 'a \<Rightarrow> ('a \<Rightarrow> error + 'b) \<Rightarrow> error + 'b" where
  "bind_res m f = (case m of Inl e \<Rightarrow> Inl e | Inr x \<Rightarrow> f x)"

definition rd :: "'a list \<Rightarrow> int \<Rightarrow> error + 'a" where
  "rd xs k = (if 0 \<le> k \<and> k < int (length xs) then Inr (xs ! nat k) else Inl OutOfBounds)"

fun for_each :: "nat list \<Rightarrow> (nat \<Rightarrow> 's \<Rightarrow> error + 's) \<Rightarrow> 's \<Rightarrow> error + 's" where
  "for_each [] body s = Inr s"
| "for_each (i # is) body s = bind_res (body i s) (for_each is body)"

definition gf_globals :: gf_tables where
  "gf_globals =
     \<lparr>gf_exp = replicate (GF_SIZE * 2) 0, gf_log = replicate GF_SIZE 0,
      gf_mul_table = replicate (GF_SIZE * GF_SIZE) 0,
      gf_div_table = replicate (GF_SIZE * GF_SIZE) 0\<rparr>"

definition gf_mul_direct :: "gf_tables \<Rightarrow> gf \<Rightarrow> gf \<Rightarrow> gf" where
  "gf_mul_direct T a b =
     (if a = 0 \<or> b = 0 then 0
      else gf_exp T ! nat ((gf_log T ! unat a + gf_log T ! unat b) smod (int GF_SIZE - 1)))"

definition gf_div_direct :: "gf_tables \<Rightarrow> gf \<Rightarrow> gf \<Rightarrow> error + gf" where
  "gf_div_direct T a b =
     (if a = 0 then Inr 0
      else if b = 0 then Inl DivisionByZero
      else Inr (gf_exp T ! nat ((gf_log T ! unat a - gf_log T ! unat b + (int GF_SIZE - 1))
                          smod (int GF_SIZE - 1))))"

definition gf_mul :: "gf_tables \<Rightarrow> gf \<Rightarrow> gf \<Rightarrow> gf" where
  "gf_mul T a b = gf_mul_table T ! (unat a * GF_SIZE + unat b)"

definition gf_div :: "gf_tables \<Rightarrow> gf \<Rightarrow> gf \<Rightarrow> gf" where
  "gf_div T a b = gf_div_table T ! (unat a * GF_SIZE + unat b)"

definition init_exp_log :: "nat \<Rightarrow> int \<times> gf_tables \<Rightarrow> int \<times> gf_tables" where
  "init_exp_log i = (\<lambda>(x, T).
     ((push_bit 1 x XOR (if x AND 0x80 \<noteq> 0 then 0x1d else 0)) AND 0xFF,
      T\<lparr>gf_exp := (gf_exp T)[i := word_of_int x], gf_log := (gf_log T)[nat x := int i]\<rparr>))"

definition init_exp_copy :: "nat \<Rightarrow> gf_tables \<Rightarrow> gf_tables" where
  "init_exp_copy i T = T\<lparr>gf_exp := (gf_exp T)[i := gf_exp T ! (i - (GF_SIZE - 1))]\<rparr>"

definition init_mul_div :: "nat \<Rightarrow> nat \<Rightarrow> gf_tables \<Rightarrow> error + gf_tables" where
  "init_mul_div i j T =
     (let T1 = T\<lparr>gf_mul_table :=
                 (gf_mul_table T)[i * GF_SIZE + j := gf_mul_direct T (of_nat i) (of_nat j)]\<rparr>
      in if j \<noteq> 0
         then bind_res (gf_div_direct T1 (of_nat i) (of_nat j))
                (\<lambda>q. Inr (T1\<lparr>gf_div_table := (gf_div_table T1)[i * GF_SIZE + j := q]\<rparr>))
         else Inr T1)"

definition init_gf :: "gf_tables \<Rightarrow> error + gf_tables" where
  "init_gf T0 =
     (let (x, T1) = fold init_exp_log [0..<GF_SIZE - 1] (1, T0);
          T2 = T1\<lparr>gf_exp := (gf_exp T1)[GF_SIZE - 1 := 1]\<rparr>;
          T3 = T2\<lparr>gf_log := (gf_log T2)[0 := - 1]\<rparr>;
          T4 = fold init_exp_copy [GF_SIZE..<GF_SIZE * 2] T3
      in for_each [0..<GF_SIZE] (\<lambda>i. for_each [0..<GF_SIZE] (init_mul_div i)) T4)"

definition GF256 :: gf_tables where
  "GF256 = (case init_gf gf_globals of Inr T \<Rightarrow> T | Inl e \<Rightarrow> gf_globals)"

definition gf_pow :: "gf_tables \<Rightarrow> gf \<Rightarrow> int \<Rightarrow> error + gf" where
  "gf_pow T a n =
     (if n = 0 then Inr 1
      else if a = 0 then Inr 0
      else let p = gf_log T ! unat a * n;
               k = p smod (int GF_SIZE - 1)
           in if p < - (2 ^ 31) \<or> 2 ^ 31 \<le> p \<or> k < 0 \<or> int (length (gf_exp T)) \<le> k
              then Inl OutOfBounds
              else Inr (gf_exp T ! nat k))"


subsection \<open>Bulk kernels (rs_avx2.c)\<close>

definition mm_loadu_si128 :: "gf list \<Rightarrow> nat \<Rightarrow> gf list" where
  "mm_loadu_si128 mem p = take 16 (drop p mem)"

definition mm256_broadcastsi128_si256 :: "gf list \<Rightarrow> gf list" where
  "mm256_broadcastsi128_si256 x = x @ x"

definition mm256_set1_epi8 :: "gf \<Rightarrow> gf list" where
  "mm256_set1_epi8 b = replicate 32 b"

definition mm256_loadu_si256 :: "gf list \<Rightarrow> nat \<Rightarrow> gf list" where
  "mm256_loadu_si256 mem p = take 32 (drop p mem)"

definition mm256_storeu_si256 :: "gf list \<Rightarrow> nat \<Rightarrow> gf list \<Rightarrow> gf list" where
  "mm256_storeu_si256 mem p v = take p mem @ v @ drop (p + 32) mem"

definition mm256_and_si256 :: "gf list \<Rightarrow> gf list \<Rightarrow> gf list" where
  "mm256_and_si256 a b = map2 (AND) a b"

definition mm256_xor_si256 :: "gf list \<Rightarrow> gf list \<Rightarrow> gf list" where
  "mm256_xor_si256 a b = map2 (XOR) a b"

definition mm256_shuffle_epi8 :: "gf list \<Rightarrow> gf list \<Rightarrow> gf list" where
  "mm256_shuffle_epi8 a b =
     map (\<lambda>p. if b ! p AND 0x80 \<noteq> 0 then 0
              else a ! (16 * (p div 16) + unat (b ! p AND 0x0f))) [0..<32]"

definition mm256_srli_epi64 :: "gf list \<Rightarrow> nat \<Rightarrow> gf list" where
  "mm256_srli_epi64 a n =
     map (\<lambda>p. drop_bit n (a ! p) OR (if p mod 8 < 7 then push_bit (8 - n) (a ! (p + 1)) else 0))
       [0..<32]"

definition mul_chunk :: "gf list \<Rightarrow> gf list \<Rightarrow> nat \<Rightarrow> gf list \<times> gf list" where
  "mul_chunk lut src i =
     (let t0_lo = mm256_broadcastsi128_si256 (mm_loadu_si128 lut 0);
          t1_lo = mm256_broadcastsi128_si256 (mm_loadu_si128 lut 16);
          t2_lo = mm256_broadcastsi128_si256 (mm_loadu_si128 lut 32);
          t3_lo = mm256_broadcastsi128_si256 (mm_loadu_si128 lut 48);
          t0_hi = mm256_broadcastsi128_si256 (mm_loadu_si128 lut 64);
          t1_hi = mm256_broadcastsi128_si256 (mm_loadu_si128 lut 80);
          t2_hi = mm256_broadcastsi128_si256 (mm_loadu_si128 lut 96);
          t3_hi = mm256_broadcastsi128_si256 (mm_loadu_si128 lut 112);
          clr_mask = mm256_set1_epi8 0x0f;
          src_lo = mm256_loadu_si256 src i;
          src_hi = mm256_loadu_si256 src (i + 32);
          data_0 = mm256_and_si256 src_lo clr_mask;
          dst_lo_0 = mm256_shuffle_epi8 t0_lo data_0;
          dst_hi_0 = mm256_shuffle_epi8 t0_hi data_0;
          data_1 = mm256_and_si256 (mm256_srli_epi64 src_lo 4) clr_mask;
          dst_lo_1 = mm256_shuffle_epi8 t1_lo data_1;
          dst_hi_1 = mm256_shuffle_epi8 t1_hi data_1;
          data_0 = mm256_and_si256 src_hi clr_mask;
          dst_lo_0 = mm256_xor_si256 dst_lo_0 (mm256_shuffle_epi8 t2_lo data_0);
          dst_hi_0 = mm256_xor_si256 dst_hi_0 (mm256_shuffle_epi8 t2_hi data_0);
          data_1 = mm256_and_si256 (mm256_srli_epi64 src_hi 4) clr_mask;
          dst_lo_1 = mm256_xor_si256 dst_lo_1 (mm256_shuffle_epi8 t3_lo data_1);
          dst_hi_1 = mm256_xor_si256 dst_hi_1 (mm256_shuffle_epi8 t3_hi data_1)
      in (mm256_xor_si256 dst_lo_0 dst_lo_1, mm256_xor_si256 dst_hi_0 dst_hi_1))"

function avx2_loop :: "(nat \<Rightarrow> gf list \<Rightarrow> gf list) \<Rightarrow> nat \<Rightarrow> int \<Rightarrow> gf list \<Rightarrow> nat \<times> gf list" where
  "avx2_loop chunk i sz dst =
     (if int i + 64 \<le> sz then avx2_loop chunk (i + 64) sz (chunk i dst) else (i, dst))"
  by pat_completeness auto
termination
  by (relation "measure (\<lambda>(chunk, i, sz, dst). nat (sz - int i))") auto

declare avx2_loop.simps [simp del]

definition mul1_avx2 :: "gf_tables \<Rightarrow> gf list \<Rightarrow> gf list \<Rightarrow> gf \<Rightarrow> int \<Rightarrow> error + gf list" where
  "mul1_avx2 T dst src c sz =
     (if int (length dst) < sz \<or> int (length src) < sz then Inl OutOfBounds
      else let lut = drop (unat c * 256) (gf_mul_table T);
               (i, d) = avx2_loop (\<lambda>i d. let (lo, hi) = mul_chunk lut src i
                                          in mm256_storeu_si256 (mm256_storeu_si256 d i lo) (i + 32) hi)
                          0 sz dst
           in Inr (fold (\<lambda>i d. d[i := gf_mul_table T ! (unat c * 256 + unat (src ! i))])
                     [i..<nat sz] d))"

definition mul_add1_avx2 :: "gf_tables \<Rightarrow> gf list \<Rightarrow> gf list \<Rightarrow> gf \<Rightarrow> int \<Rightarrow> error + gf list" where
  "mul_add1_avx2 T dst src c sz =
     (if int (length dst) < sz \<or> int (length src) < sz then Inl OutOfBounds
      else let lut = drop (unat c * 256) (gf_mul_table T);
               (i, d) = avx2_loop (\<lambda>i d. let (lo, hi) = mul_chunk lut src i
                                          in mm256_storeu_si256
                                               (mm256_storeu_si256 d i
                                                  (mm256_xor_si256 (mm256_loadu_si256 d i) lo))
                                               (i + 32)
                                               (mm256_xor_si256 (mm256_loadu_si256 d (i + 32)) hi))
                          0 sz dst
           in Inr (fold (\<lambda>i d. d[i := d ! i XOR gf_mul_table T ! (unat c * 256 + unat (src ! i))])
                     [i..<nat sz] d))"

definition add1_avx2 :: "gf list \<Rightarrow> gf list \<Rightarrow> int \<Rightarrow> error + gf list" where
  "add1_avx2 dst src sz =
     (if int (length dst) < sz \<or> int (length src) < sz then Inl OutOfBounds
      else let (i, d) = avx2_loop (\<lambda>i d.
                            let src_lo = mm256_loadu_si256 src i;
                                src_hi = mm256_loadu_si256 src (i + 32);
                                dst_lo = mm256_loadu_si256 d i;
                                dst_hi = mm256_loadu_si256 d (i + 32)
                            in mm256_storeu_si256
                                 (mm256_storeu_si256 d i (mm256_xor_si256 src_lo dst_lo))
                                 (i + 32) (mm256_xor_si256 src_hi dst_hi))
                          0 sz dst
           in Inr (fold (\<lambda>i d. d[i := d ! i XOR src ! i]) [i..<nat sz] d))"

definition memcpy :: "gf list \<Rightarrow> gf list \<Rightarrow> int \<Rightarrow> error + gf list" where
  "memcpy dst src n =
     (if n < 0 \<or> int (length dst) < n \<or> int (length src) < n then Inl OutOfBounds
      else Inr (take (nat n) src @ drop (nat n) dst))"

definition memset :: "gf list \<Rightarrow> gf \<Rightarrow> int \<Rightarrow> error + gf list" where
  "memset dst v n =
     (if n < 0 \<or> int (length dst) < n then Inl OutOfBounds
      else Inr (replicate (nat n) v @ drop (nat n) dst))"

subsection \<open>Matrix engine (rs.c)\<close>

definition cauchy :: "gf_tables \<Rightarrow> nat \<Rightarrow> nat \<Rightarrow> gf list" where
  "cauchy T rows cols =
     concat (map (\<lambda>i. map (\<lambda>j. gf_div_table T ! ((256 * 1 + i) XOR (rows + j))) [0..<cols])
               [0..<rows])"

definition sub_matrix :: "gf list \<Rightarrow> nat \<Rightarrow> nat \<Rightarrow> nat \<Rightarrow> nat \<Rightarrow> nat \<Rightarrow> nat \<Rightarrow> gf list" where
  "sub_matrix m rmin cmin rmax cmax nrows ncols =
     concat (map (\<lambda>i. map (\<lambda>j. m ! (i * ncols + j)) [cmin..<cmax]) [rmin..<rmax])"

definition multiply1 :: "gf_tables \<Rightarrow> gf list \<Rightarrow> nat \<Rightarrow> nat \<Rightarrow> gf list \<Rightarrow> nat \<Rightarrow> nat \<Rightarrow> gf list" where
  "multiply1 T a ar ac b br bc =
     concat (map (\<lambda>r. map (\<lambda>c. fold (\<lambda>i tg. tg XOR gf_mul T (a ! (r * ac + i)) (b ! (i * bc + c)))
                                  [0..<ac] 0) [0..<bc]) [0..<ar])"

definition matrix_multiply :: "gf_tables \<Rightarrow> gf list \<Rightarrow> gf list \<Rightarrow> gf list \<Rightarrow> nat \<Rightarrow> gf list" where
  "matrix_multiply T a b result n =
     fold (\<lambda>i. fold (\<lambda>j res.
                  fold (\<lambda>k res. res[i * n + j := res ! (i * n + j) XOR gf_mul T (a ! (i * n + k)) (b ! (k * n + j))])
                    [0..<n] (res[i * n + j := 0]))
             [0..<n])
       [0..<n] result"


text \<open>The row operations of \<^verbatim>\<open>matrix_invert\<close>; each acts on the matrix and on the
  shadow inverse inside one loop over the columns.\<close>

definition swap_rows :: "nat \<Rightarrow> nat \<Rightarrow> nat \<Rightarrow> gf list \<times> gf list \<Rightarrow> gf list \<times> gf list" where
  "swap_rows n i j = fold (\<lambda>k (m, inverse_m).
      (let temp = m ! (i * n + k);
           m = m[i * n + k := m ! (j * n + k)];
           m = m[j * n + k := temp];
           temp = inverse_m ! (i * n + k);
           inverse_m = inverse_m[i * n + k := inverse_m ! (j * n + k)];
           inverse_m = inverse_m[j * n + k := temp]
       in (m, inverse_m))) [0..<n]"

fun find_pivot :: "gf list \<Rightarrow> nat \<Rightarrow> nat \<Rightarrow> nat list \<Rightarrow> nat" where
  "find_pivot m n i [] = n"
| "find_pivot m n i (j # js) = (if m ! (j * n + i) \<noteq> 0 then j else find_pivot m n i js)"

definition pivot_row :: "nat \<Rightarrow> nat \<Rightarrow> gf list \<times> gf list \<Rightarrow> (gf list \<times> gf list) option" where
  "pivot_row n i = (\<lambda>(m, inverse_m).
     if m ! (i * n + i) = 0
     then (let j = find_pivot m n i [i + 1..<n]
           in if j = n then None else Some (swap_rows n i j (m, inverse_m)))
     else Some (m, inverse_m))"

definition scale_row :: "gf_tables \<Rightarrow> nat \<Rightarrow> nat \<Rightarrow> gf list \<times> gf list \<Rightarrow> gf list \<times> gf list" where
  "scale_row T n i = (\<lambda>(m, inverse_m).
     if m ! (i * n + i) \<noteq> 1
     then (let temp = gf_div_table T ! (256 * 1 + unat (m ! (i * n + i)))
           in fold (\<lambda>j (m, inverse_m).
                  (m[i * n + j := gf_mul T (m ! (i * n + j)) temp],
                   inverse_m[i * n + j := gf_mul T (inverse_m ! (i * n + j)) temp])) [0..<n] (m, inverse_m))
     else (m, inverse_m))"

definition eliminate :: "gf_tables \<Rightarrow> nat \<Rightarrow> nat \<Rightarrow> gf list \<times> gf list \<Rightarrow> gf list \<times> gf list" where
  "eliminate T n i = fold (\<lambda>j (m, inverse_m).
     if i \<noteq> j
     then (let temp = m ! (j * n + i)
           in if temp \<noteq> 0
              then fold (\<lambda>k (m, inverse_m).
                     (m[j * n + k := m ! (j * n + k) XOR gf_mul T temp (m ! (i * n + k))],
                      inverse_m[j * n + k := inverse_m ! (j * n + k) XOR gf_mul T temp (inverse_m ! (i * n + k))]))
                     [0..<n] (m, inverse_m)
              else (m, inverse_m))
     else (m, inverse_m)) [0..<n]"

fun gauss_jordan :: "gf_tables \<Rightarrow> nat \<Rightarrow> nat list \<Rightarrow> gf list \<times> gf list \<Rightarrow> int \<times> gf list" where
  "gauss_jordan T n [] (m, inverse_m) = (1, inverse_m)"
| "gauss_jordan T n (i # is) (m, inverse_m) =
     (case pivot_row n i (m, inverse_m) of
        None \<Rightarrow> (0, m)
      | Some s \<Rightarrow> gauss_jordan T n is (eliminate T n i (scale_row T n i s)))"

definition matrix_invert :: "gf_tables \<Rightarrow> gf list \<Rightarrow> nat \<Rightarrow> int \<times> gf list" where
  "matrix_invert T m n =
     (let inverse_m = fold (\<lambda>i inverse_m. inverse_m[i * n + i := 1]) [0..<n] (replicate (n * n) 0)
      in gauss_jordan T n [0..<n] (m, inverse_m))"

subsection \<open>Reed-Solomon coder (rs.c)\<close>

record reed_solomon =
  data_shards :: int
  parity_shards :: int
  shards :: int
  matrix :: "gf list"
  parity :: "gf list"

abbreviation (input) DATA_SHARDS_MAX :: int where "DATA_SHARDS_MAX \<equiv> 255"

definition rs_new :: "gf_tables \<Rightarrow> int \<Rightarrow> int \<Rightarrow> reed_solomon option" where
  "rs_new T dshards pshards =
     (let total = dshards + pshards
      in if total > DATA_SHARDS_MAX \<or> dshards \<le> 0 \<or> pshards \<le> 0 then None
         else let vm = cauchy T (nat total) (nat dshards);
                  top = sub_matrix vm 0 0 (nat dshards) (nat dshards) (nat total) (nat dshards);
                  (err, top) = matrix_invert T top (nat dshards)
              in if err = 0 then None
                 else let mat = multiply1 T vm (nat total) (nat dshards) top (nat dshards) (nat dshards)
                      in Some \<lparr>data_shards = dshards, parity_shards = pshards, shards = total,
                               matrix = mat,
                               parity = sub_matrix mat (nat dshards) 0 (nat total) (nat dshards)
                                          (nat total) (nat dshards)\<rparr>)"

definition encode_term :: "gf_tables \<Rightarrow> reed_solomon \<Rightarrow> gf list list \<Rightarrow> int \<Rightarrow> nat \<Rightarrow> nat \<Rightarrow>
    bool \<times> gf list \<Rightarrow> error + bool \<times> gf list" where
  "encode_term T rs data shard_size i j = (\<lambda>(first, p).
     bind_res (rd (matrix rs) ((data_shards rs + int i) * data_shards rs + int j)) (\<lambda>coeff.
       if coeff = 0 then Inr (first, p)
       else bind_res (rd data (int j)) (\<lambda>d.
         bind_res (if first
                   then (if coeff = 1 then memcpy p d shard_size else mul1_avx2 T p d coeff shard_size)
                   else (if coeff = 1 then add1_avx2 p d shard_size
                         else mul_add1_avx2 T p d coeff shard_size))
           (\<lambda>p'. Inr (False, p')))))"

definition rs_encode :: "gf_tables \<Rightarrow> reed_solomon \<Rightarrow> gf list list \<Rightarrow> gf list list \<Rightarrow> int \<Rightarrow>
    error + gf list list" where
  "rs_encode T rs data par shard_size =
     for_each [0..<nat (parity_shards rs)] (\<lambda>i par.
        bind_res (rd par (int i)) (\<lambda>p.
          bind_res (for_each [0..<nat (data_shards rs)] (encode_term T rs data shard_size i) (True, p))
            (\<lambda>(first, p'). Inr (par[i := p'])))) par"

text \<open>Collecting the surviving rows: \<^verbatim>\<open>for (i = 0; i < total && valid_count < k; i++)\<close>.
  The state is the sub-matrix built so far (row by row) and the list of valid shard indices.\<close>

fun collect_valid :: "reed_solomon \<Rightarrow> int list \<Rightarrow> nat list \<Rightarrow> gf list \<times> nat list \<Rightarrow>
    error + gf list \<times> nat list" where
  "collect_valid rs erasures [] (sub, valid) = Inr (sub, valid)"
| "collect_valid rs erasures (i # is) (sub, valid) =
     (if int (length valid) < data_shards rs
      then bind_res (rd erasures (int i)) (\<lambda>e.
             if e = 0
             then bind_res (for_each [0..<nat (data_shards rs)] (\<lambda>j row.
                              bind_res (rd (matrix rs) (int i * data_shards rs + int j))
                                (\<lambda>v. Inr (row @ [v]))) [])
                    (\<lambda>row. collect_valid rs erasures is (sub @ row, valid @ [i]))
             else collect_valid rs erasures is (sub, valid))
      else Inr (sub, valid))"

definition reconstruct :: "gf_tables \<Rightarrow> reed_solomon \<Rightarrow> gf list \<Rightarrow> nat list \<Rightarrow> int \<Rightarrow> nat \<Rightarrow>
    gf list list \<Rightarrow> error + gf list list" where
  "reconstruct T rs sub valid shard_size i bufs =
     bind_res (rd bufs (int i)) (\<lambda>b.
       bind_res (memset b 0 shard_size) (\<lambda>z.
         for_each [0..<nat (data_shards rs)] (\<lambda>j bufs.
            bind_res (rd bufs (int (valid ! j))) (\<lambda>shard.
              bind_res (rd sub (int i * data_shards rs + int j)) (\<lambda>coeff.
                bind_res (rd bufs (int i)) (\<lambda>cur.
                  bind_res (mul_add1_avx2 T cur shard coeff shard_size) (\<lambda>r.
                    Inr (bufs[i := r])))))) (bufs[i := z])))"

definition rs_decode :: "gf_tables \<Rightarrow> reed_solomon \<Rightarrow> gf list list \<Rightarrow> int list \<Rightarrow> int \<Rightarrow> int \<Rightarrow>
    error + int \<times> gf list list" where
  "rs_decode T rs bufs erasures erasure_count shard_size =
     (let k = data_shards rs; total_shards = k + parity_shards rs
      in if total_shards - erasure_count < k then Inr (0, bufs)
         else bind_res (collect_valid rs erasures [0..<nat total_shards] ([], [])) (\<lambda>(sub, valid).
                if int (length valid) < k then Inl Uninitialised
                else (let (ok, sub) = matrix_invert T sub (nat k)
                      in if ok = 0 then Inr (0, bufs)
                         else bind_res
                                (for_each [0..<nat total_shards] (\<lambda>i bufs.
                                   bind_res (rd erasures (int i)) (\<lambda>e.
                                     if e = 1 then reconstruct T rs sub valid shard_size i bufs
                                     else Inr bufs)) bufs)
                                (\<lambda>bufs'. Inr (1, bufs')))))"

definition copy_row :: "gf list \<Rightarrow> int \<Rightarrow> int \<Rightarrow> error + gf list" where
  "copy_row m start n =
     (if start < 0 \<or> n < 0 \<or> int (length m) < start + n then Inl OutOfBounds
      else Inr (take (nat n) (drop (nat start) m)))"

definition generic_term :: "gf_tables \<Rightarrow> gf list \<Rightarrow> int \<Rightarrow> int \<Rightarrow> nat \<Rightarrow> nat \<Rightarrow>
    bool \<times> gf list list \<Rightarrow> error + bool \<times> gf list list" where
  "generic_term T recon k shard_size i j = (\<lambda>(first, bufs).
     bind_res (rd recon (int i * k + int j)) (\<lambda>coeff.
       if coeff = 0 then Inr (first, bufs)
       else bind_res (rd bufs (int i)) (\<lambda>dst.
         bind_res (rd bufs (int j)) (\<lambda>src.
           bind_res (if first
                     then (if coeff = 1 then memcpy dst src shard_size
                           else mul1_avx2 T dst src coeff shard_size)
                     else (if coeff = 1 then add1_avx2 dst src shard_size
                           else mul_add1_avx2 T dst src coeff shard_size))
             (\<lambda>r. Inr (False, bufs[i := r]))))))"

definition rs_generic_galois_coding :: "gf_tables \<Rightarrow> reed_solomon \<Rightarrow> int list \<Rightarrow> int \<Rightarrow> int \<Rightarrow> int \<Rightarrow>
    gf list list \<Rightarrow> error + int \<times> gf list list" where
  "rs_generic_galois_coding T rs shard_ids input_count output_count shard_size bufs =
     (let k = input_count
      in if k < 0 \<or> output_count < 0 then Inl OutOfBounds
         else bind_res
           (for_each [0..<nat k] (\<lambda>i input_matrix.
              bind_res (rd shard_ids (int i)) (\<lambda>sid.
                if sid < k
                then bind_res (copy_row (matrix rs) (sid * k) k) (\<lambda>row. Inr (input_matrix @ row))
                else Inl Uninitialised)) [])
           (\<lambda>input_matrix.
              let (ok, input_matrix) = matrix_invert T input_matrix (nat k)
              in if ok = 0 then Inr (0, bufs)
                 else bind_res
                   (for_each [0..<nat output_count] (\<lambda>i output_matrix.
                      bind_res (rd shard_ids (int i)) (\<lambda>sid.
                        bind_res (copy_row (matrix rs) ((k + sid) * k) k)
                          (\<lambda>row. Inr (output_matrix @ row)))) [])
                   (\<lambda>output_matrix.
                      if k < output_count then Inl OutOfBounds
                      else if 0 < output_count \<and> output_count < k then Inl Uninitialised
                      else let recon = matrix_multiply T output_matrix input_matrix
                                         (replicate (nat (output_count * k)) 0) (nat output_count)
                           in bind_res
                                (for_each [0..<nat output_count] (\<lambda>i bufs.
                                   bind_res (for_each [0..<nat k]
                                               (generic_term T recon k shard_size i) (True, bufs))
                                     (\<lambda>(first, bufs'). Inr bufs')) bufs)
                                (\<lambda>bufs'. Inr (1, bufs')))))"

subsection \<open>Spread and unspread (blockaio.c)\<close>










subsection \<open>Header block and shard counting (blockaio.c)\<close>

record header_block =
  magic_number :: "8 word list"
  version_number :: "32 word"
  volume_prefix_id :: "32 word"
  primary_index_offset :: "64 word"
  secondary_index_offset :: "64 word"
  tail_offset :: "64 word"
  shard_ids :: "8 word list"
  header_crc32c :: "32 word"

function k_blocks_loop :: "8 word list \<Rightarrow> nat \<Rightarrow> nat" where
  "k_blocks_loop ids count =
     (if count > 1 \<and> ids ! (count - 2) = ids ! (count - 1)
      then k_blocks_loop ids (count - 1) else count)"
  by pat_completeness auto
termination
  by (relation "measure (\<lambda>(ids, count). count)") auto

declare k_blocks_loop.simps [simp del]

definition get_k_blocks_in_stripe :: "header_block \<Rightarrow> nat" where
  "get_k_blocks_in_stripe header = k_blocks_loop (shard_ids header) 8"

definition header_with_ids :: "8 word list \<Rightarrow> header_block" where
  "header_with_ids ids =
     \<lparr>magic_number = replicate 32 0, version_number = 1, volume_prefix_id = 2 ^ 24,
      primary_index_offset = 0, secondary_index_offset = 0, tail_offset = 0,
      shard_ids = ids, header_crc32c = 0\<rparr>"

subsection \<open>The coder and its buffers in memory\<close>

text \<open>
  \<^verbatim>\<open>rs_encode\<close> and \<^verbatim>\<open>rs_decode\<close> get the coder and the shard buffers by pointer.  To state
  what a call writes, the same two functions are given over a store of byte arrays: \<open>h a\<close> is the
  array at the address \<open>a\<close>, a pointer is the address of an array, and the coder is the struct
  \<^verbatim>\<open>reed_solomon\<close> with its matrix as a pointer.  Every \<^verbatim>\<open>rs->matrix[...]\<close>, \<^verbatim>\<open>data[j]\<close>,
  \<^verbatim>\<open>parity[i]\<close> and \<^verbatim>\<open>shards[i]\<close> is read from the store at the moment the code reads it, and every
  kernel call writes its destination back, so that two pointers to the same array behave as in
  the code.  The struct itself and the pointer arrays are not byte buffers.
\<close>

type_synonym addr = nat

type_synonym store = "addr \<rightharpoonup> gf list"








subsection \<open>Auxiliary notions for the proofs\<close>

text \<open>
  One step of the generator loop of \<^verbatim>\<open>init_gf\<close> read on bytes: multiplication by the
  generator 2 modulo the polynomial \<open>0x11D\<close>; its iterates from 1 are the powers of 2.
\<close>

definition xtime :: "gf \<Rightarrow> gf" where
  "xtime x = push_bit 1 x XOR (if x AND 0x80 \<noteq> 0 then 0x1d else 0)"

primrec gf_pw :: "nat \<Rightarrow> gf" where
  "gf_pw 0 = 1"
| "gf_pw (Suc n) = xtime (gf_pw n)"

fun orbit :: "nat \<Rightarrow> gf \<Rightarrow> gf list" where
  "orbit 0 x = []"
| "orbit (Suc n) x = x # orbit n (xtime x)"

definition dlog :: "gf \<Rightarrow> nat" where
  "dlog a = nat (gf_log GF256 ! unat a)"

text \<open>The tables after the three exponent and logarithm loops of \<^verbatim>\<open>init_gf\<close>, before
  the multiplication and division tables are filled.\<close>

definition exp_log_tables :: gf_tables where
  "exp_log_tables =
     (let (x, T1) = fold init_exp_log [0..<GF_SIZE - 1] (1, gf_globals);
          T2 = T1\<lparr>gf_exp := (gf_exp T1)[GF_SIZE - 1 := 1]\<rparr>;
          T3 = T2\<lparr>gf_log := (gf_log T2)[0 := - 1]\<rparr>
      in fold init_exp_copy [GF_SIZE..<GF_SIZE * 2] T3)"

text \<open>The state of the table-filling loop once the first \<open>c\<close> cells, in row-major order,
  have been written.\<close>

definition mul_div_filled :: "gf_tables \<Rightarrow> nat \<Rightarrow> gf_tables \<Rightarrow> bool" where
  "mul_div_filled T0 c T \<longleftrightarrow>
     gf_exp T = gf_exp T0 \<and> gf_log T = gf_log T0 \<and>
     length (gf_mul_table T) = length (gf_mul_table T0) \<and>
     length (gf_div_table T) = length (gf_div_table T0) \<and>
     (\<forall>idx. gf_mul_table T ! idx =
        (if idx < c then gf_mul_direct T0 (of_nat (idx div 256)) (of_nat (idx mod 256))
         else gf_mul_table T0 ! idx)) \<and>
     (\<forall>idx. gf_div_table T ! idx =
        (if idx < c \<and> idx mod 256 \<noteq> 0
         then projr (gf_div_direct T0 (of_nat (idx div 256)) (of_nat (idx mod 256)))
         else gf_div_table T0 ! idx))"


definition xsum :: "(nat \<Rightarrow> gf) \<Rightarrow> nat \<Rightarrow> gf" where
  "xsum f n = fold (\<lambda>k acc. acc XOR f k) [0..<n] 0"






section \<open>Verification\<close>

lemma bind_res_Inr [simp]: "bind_res (Inr x) f = f x"
  by (simp add: bind_res_def)

lemma bind_res_Inl [simp]: "bind_res (Inl e) f = Inl e"
  by (simp add: bind_res_def)

lemma bind_res_eq_Inr:
  "bind_res m f = Inr y \<longleftrightarrow> (\<exists>x. m = Inr x \<and> f x = Inr y)"
  by (cases m) auto

lemma for_each_append:
  "for_each (xs @ ys) body s = bind_res (for_each xs body s) (for_each ys body)"
  by (induction xs arbitrary: s) (auto simp: bind_res_def split: sum.splits)

lemma bind_res_return [simp]: "bind_res m Inr = m"
  by (cases m) auto

lemma for_each_single [simp]: "for_each [n] body = body n"
proof
  fix s
  have "for_each [] body = Inr" by (rule ext) simp
  then show "for_each [n] body s = body n s" by simp
qed

lemma for_each_snoc:
  "for_each [0..<Suc n] body s = bind_res (for_each [0..<n] body s) (body n)"
  by (simp add: for_each_append)

subsection \<open>Sixteen-byte loads and stores\<close>








subsection \<open>One round of spreading\<close>



lemma replicate_eq_map: "replicate k v = map (\<lambda>i. v) [0..<k]"
  by (simp add: map_replicate_const)



subsection \<open>One round of unspreading\<close>






subsection \<open>Counting the shards of a stripe\<close>

lemma k_blocks_loop_step:
  "1 < c \<Longrightarrow> ids ! (c - 2) = ids ! (c - 1) \<Longrightarrow> k_blocks_loop ids c = k_blocks_loop ids (c - 1)"
  by (subst k_blocks_loop.simps) simp

lemma k_blocks_loop_done:
  "c \<le> 1 \<or> ids ! (c - 2) \<noteq> ids ! (c - 1) \<Longrightarrow> k_blocks_loop ids c = c"
  by (subst k_blocks_loop.simps) auto

lemma k_blocks_loop_filled:
  assumes tail: "\<And>i. k \<le> i \<Longrightarrow> i < n \<Longrightarrow> ids ! i = ids ! (k - 1)"
    and stop: "k \<le> 1 \<or> ids ! (k - 2) \<noteq> ids ! (k - 1)"
    and k: "1 \<le> k"
  shows "k \<le> c \<Longrightarrow> c \<le> n \<Longrightarrow> k_blocks_loop ids c = k"
proof (induction d \<equiv> "c - k" arbitrary: c)
  case 0
  then have "c = k" by simp
  then show ?case using stop by (simp add: k_blocks_loop_done)
next
  case (Suc d)
  then have c: "k < c" "c \<le> n" by auto
  have a: "ids ! (c - 1) = ids ! (k - 1)"
    using tail [of "c - 1"] c by auto
  have b: "ids ! (c - 2) = ids ! (k - 1)"
  proof (cases "c - 2 = k - 1")
    case True
    then show ?thesis by simp
  next
    case False
    then have "k \<le> c - 2" "c - 2 < n" using c k by auto
    then show ?thesis by (rule tail)
  qed
  have "k_blocks_loop ids c = k_blocks_loop ids (c - 1)"
    using c k a b by (intro k_blocks_loop_step) auto
  also have "\<dots> = k"
    using Suc c by (intro Suc.hyps(1)) auto
  finally show ?case .
qed

lemma filled_set:
  assumes len: "length ids = n" and k: "1 \<le> k" "k \<le> n"
    and tail: "drop k ids = replicate (n - k) (ids ! (k - 1))"
  shows "set ids = set (take k ids)"
proof -
  have "ids ! (k - 1) \<in> set (take k ids)"
    using k len by (metis One_nat_def Suc_le_lessD Suc_pred diff_less in_set_conv_nth
        length_take less_Suc_eq_le min.absorb2 nth_take zero_less_one)
  then have "set (drop k ids) \<subseteq> set (take k ids)"
    unfolding tail by auto
  moreover have "set ids = set (take k ids) \<union> set (drop k ids)"
    by (metis append_take_drop_id set_append)
  ultimately show ?thesis by auto
qed

text \<open>
  Claim C8, as amended. When the eight-entry \<open>shard_ids\<close> array holds \<open>k\<close> strictly
  increasing ids followed by \<open>8 - k\<close> repetitions of the last of them (the layout the header
  comment prescribes: sorted, the last shard repeated), \<open>get_k_blocks_in_stripe\<close> returns \<open>k\<close>,
  which is the number of distinct values in the array.
\<close>

theorem k_blocks_counts_distinct_when_last_repeated:
  assumes len: "length (shard_ids h) = 8" and k: "1 \<le> k" "k \<le> 8"
    and inc: "sorted_wrt (<) (take k (shard_ids h))"
    and tail: "drop k (shard_ids h) = replicate (8 - k) (shard_ids h ! (k - 1))"
  shows "get_k_blocks_in_stripe h = k \<and> card (set (shard_ids h)) = k"
proof -
  let ?ids = "shard_ids h"
  have t: "\<And>i. k \<le> i \<Longrightarrow> i < 8 \<Longrightarrow> ?ids ! i = ?ids ! (k - 1)"
  proof -
    fix i assume i: "k \<le> i" "i < 8"
    have "?ids ! i = drop k ?ids ! (i - k)" using i len by simp
    also have "\<dots> = ?ids ! (k - 1)" unfolding tail using i by simp
    finally show "?ids ! i = ?ids ! (k - 1)" .
  qed
  have s: "k \<le> 1 \<or> ?ids ! (k - 2) \<noteq> ?ids ! (k - 1)"
  proof (cases "k \<le> 1")
    case True
    then show ?thesis by simp
  next
    case False
    then have "take k ?ids ! (k - 2) < take k ?ids ! (k - 1)"
      using sorted_wrt_nth_less [OF inc, of "k - 2" "k - 1"] len k by auto
    then have "?ids ! (k - 2) < ?ids ! (k - 1)" using False by simp
    then show ?thesis by auto
  qed
  have r: "get_k_blocks_in_stripe h = k"
    unfolding get_k_blocks_in_stripe_def
    using k_blocks_loop_filled [of k 8 ?ids 8, OF t s k(1)] k by simp
  have "distinct (take k ?ids)"
    using inc strict_sorted_iff by (metis strict_sorted_imp_sorted sorted_wrt_iff_nth_less distinct_conv_nth less_irrefl linorder_neqE_nat)
  then have "card (set (take k ?ids)) = k"
    using len k by (simp add: distinct_card)
  then have "card (set ?ids) = k"
    using filled_set [OF len k tail] by simp
  with r show ?thesis by simp
qed

theorem k_blocks_counts_distinct_witness:
  "get_k_blocks_in_stripe (header_with_ids [1, 2, 3, 3, 3, 3, 3, 3]) = 3 \<and>
   card (set (shard_ids (header_with_ids [1, 2, 3, 3, 3, 3, 3, 3]))) = 3"
proof -
  let ?h = "header_with_ids [1, 2, 3, 3, 3, 3, 3, 3]"
  have a: "length (shard_ids ?h) = 8" by (simp add: header_with_ids_def)
  have b: "sorted_wrt (<) (take 3 (shard_ids ?h))" by (simp add: header_with_ids_def)
  have c: "drop 3 (shard_ids ?h) = replicate (8 - 3) (shard_ids ?h ! (3 - 1))"
    by (simp add: header_with_ids_def eval_nat_numeral)
  show ?thesis
    using k_blocks_counts_distinct_when_last_repeated [of ?h 3, OF a _ _ b c] by simp
qed

text \<open>
  The count is 8 minus the number of trailing duplicates, so a repeated id that is not the
  last one is counted twice: the sorted array \<open>0, 0, 1, 2, 3, 4, 5, 6\<close> has seven distinct
  ids and the function returns 8.
\<close>

theorem k_blocks_not_distinct_count:
  "length (shard_ids (header_with_ids [0, 0, 1, 2, 3, 4, 5, 6])) = 8 \<and>
   sorted (shard_ids (header_with_ids [0, 0, 1, 2, 3, 4, 5, 6])) \<and>
   get_k_blocks_in_stripe (header_with_ids [0, 0, 1, 2, 3, 4, 5, 6]) = 8 \<and>
   card (set (shard_ids (header_with_ids [0, 0, 1, 2, 3, 4, 5, 6]))) = 7"
  by (simp add: header_with_ids_def get_k_blocks_in_stripe_def k_blocks_loop.simps)

subsection \<open>Decoding with too many erasures\<close>

text \<open>
  Claim C10. When \<open>erasure_count\<close> exceeds the number of parity shards, \<^verbatim>\<open>rs_decode\<close>
  returns the failure code 0 at its first test, before it reads the erasure flags or touches
  a shard buffer: the buffers come back exactly as they were passed in.
\<close>

theorem rs_decode_too_many_erasures:
  "parity_shards rs < erasure_count \<Longrightarrow>
   rs_decode T rs bufs erasures erasure_count shard_size = Inr (0, bufs)"
  by (simp add: rs_decode_def Let_def)

theorem rs_decode_too_many_erasures_witness:
  "rs_decode GF256
     \<lparr>data_shards = 1, parity_shards = 1, shards = 2, matrix = [1, 245], parity = [245]\<rparr>
     [[7], [9]] [1, 1] 2 1 = Inr (0, [[7], [9]])"
  using rs_decode_too_many_erasures
    [of "\<lparr>data_shards = 1, parity_shards = 1, shards = 2, matrix = [1, 245], parity = [245]\<rparr>"
        2 GF256 "[[7], [9]]" "[1, 1]" 1]
  by simp

subsection \<open>The generator step\<close>

lemma and_0x80_int: "((k::int) AND 0x80 \<noteq> 0) = bit k 7"
  using and_exp_eq_0_iff_not_bit [of k 7] by simp

lemma and_0x80_word: "((w::gf) AND 0x80 \<noteq> 0) = bit w 7"
  using and_exp_eq_0_iff_not_bit [of w 7] by simp

lemma xtime_alt: "xtime x = push_bit 1 x XOR (if bit x 7 then 0x1d else 0)"
  by (simp add: xtime_def and_0x80_word)

lemma xtime_xor: "xtime (u XOR v) = xtime u XOR xtime v"
  by (simp add: xtime_alt push_bit_xor bit_xor_iff xor.assoc xor.left_commute)

lemma xtime_0 [simp]: "xtime 0 = 0"
  by (simp add: xtime_def)

lemma word_of_int_and_0xFF: "(word_of_int (k AND 0xFF) :: gf) = word_of_int k"
proof -
  have "(word_of_int (k AND 0xFF) :: gf) = word_of_int k AND 0xFF"
    by (simp add: of_int_and_eq)
  also have "(0xFF :: gf) = - 1" by simp
  finally show ?thesis by simp
qed

lemma init_step_xtime:
  "(word_of_int ((push_bit 1 x XOR (if x AND 0x80 \<noteq> 0 then 0x1d else 0)) AND 0xFF) :: gf) =
     xtime (word_of_int x)"
  by (simp add: word_of_int_and_0xFF xtime_alt and_0x80_int of_int_xor_eq push_bit_of_int
      bit_word_of_int_iff)

lemma init_step_range:
  "0 \<le> (y::int) AND 0xFF \<and> y AND 0xFF < 256"
proof -
  have "y AND 0xFF = take_bit 8 y"
    by (simp add: take_bit_eq_mask mask_eq_exp_minus_1)
  then show ?thesis
    using take_bit_int_less_exp [of 8 y] by simp
qed

subsection \<open>The powers of the generator\<close>

lemma gf_pw_funpow: "gf_pw i = (xtime ^^ i) 1"
  by (induction i) simp_all

lemma orbit_length [simp]: "length (orbit n x) = n"
  by (induction n arbitrary: x) simp_all

lemma orbit_nth: "i < n \<Longrightarrow> orbit n x ! i = (xtime ^^ i) x"
proof (induction n arbitrary: x i)
  case 0
  then show ?case by simp
next
  case (Suc n)
  show ?case
  proof (cases i)
    case 0
    then show ?thesis by simp
  next
    case (Suc j)
    then have "orbit (Suc n) x ! i = (xtime ^^ j) (xtime x)"
      using Suc.IH [of j "xtime x"] Suc.prems by simp
    then show ?thesis using Suc by (simp add: funpow_swap1)
  qed
qed

lemma gf_pw_orbit: "i < n \<Longrightarrow> gf_pw i = orbit n 1 ! i"
  by (simp add: orbit_nth gf_pw_funpow)

lemma orbit_numeral: "orbit (numeral k) x = x # orbit (pred_numeral k) (xtime x)"
  by (simp add: numeral_eq_Suc)

lemma xtime_numeral:
  "xtime (numeral k) =
     push_bit 1 (numeral k) XOR (if numeral k AND (0x80 :: gf) \<noteq> 0 then 0x1d else 0)"
  by (simp add: xtime_def)

lemma xtime_1: "xtime 1 = 2"
  by (simp add: xtime_def)

text \<open>The 255 successive values of the generator loop, starting from 1.\<close>

lemma orbit_255: "orbit 255 1 =
     [1, 2, 4, 8, 16, 32, 64, 128, 29, 58, 116, 232, 205, 135, 19, 38, 76, 152, 45, 90, 180,
     117, 234, 201, 143, 3, 6, 12, 24, 48, 96, 192, 157, 39, 78, 156, 37, 74, 148, 53, 106,
     212, 181, 119, 238, 193, 159, 35, 70, 140, 5, 10, 20, 40, 80, 160, 93, 186, 105, 210,
     185, 111, 222, 161, 95, 190, 97, 194, 153, 47, 94, 188, 101, 202, 137, 15, 30, 60, 120,
     240, 253, 231, 211, 187, 107, 214, 177, 127, 254, 225, 223, 163, 91, 182, 113, 226, 217,
     175, 67, 134, 17, 34, 68, 136, 13, 26, 52, 104, 208, 189, 103, 206, 129, 31, 62, 124,
     248, 237, 199, 147, 59, 118, 236, 197, 151, 51, 102, 204, 133, 23, 46, 92, 184, 109,
     218, 169, 79, 158, 33, 66, 132, 21, 42, 84, 168, 77, 154, 41, 82, 164, 85, 170, 73, 146,
     57, 114, 228, 213, 183, 115, 230, 209, 191, 99, 198, 145, 63, 126, 252, 229, 215, 179,
     123, 246, 241, 255, 227, 219, 171, 75, 150, 49, 98, 196, 149, 55, 110, 220, 165, 87,
     174, 65, 130, 25, 50, 100, 200, 141, 7, 14, 28, 56, 112, 224, 221, 167, 83, 166, 81,
     162, 89, 178, 121, 242, 249, 239, 195, 155, 43, 86, 172, 69, 138, 9, 18, 36, 72, 144,
     61, 122, 244, 245, 247, 243, 251, 235, 203, 139, 11, 22, 44, 88, 176, 125, 250, 233,
     207, 131, 27, 54, 108, 216, 173, 71, 142]"
  by (simp add: orbit_numeral xtime_numeral xtime_1)

lemma orbit_distinct: "distinct (orbit 255 1)"
  unfolding orbit_255 by simp

lemma orbit_nonzero: "0 \<notin> set (orbit 255 1)"
  unfolding orbit_255 by simp

lemma gf_pw_254: "gf_pw 254 = 142"
  using gf_pw_orbit [of 254 255] unfolding orbit_255 by simp

lemma gf_pw_255: "gf_pw 255 = 1"
proof -
  have "gf_pw 255 = xtime (gf_pw 254)"
    by (simp add: numeral_eq_Suc)
  then show ?thesis unfolding gf_pw_254 by (simp add: xtime_numeral)
qed

lemma gf_pw_inj: "i < 255 \<Longrightarrow> j < 255 \<Longrightarrow> gf_pw i = gf_pw j \<Longrightarrow> i = j"
  using orbit_distinct gf_pw_orbit [of i 255] gf_pw_orbit [of j 255]
  by (simp add: nth_eq_iff_index_eq)

lemma gf_pw_nonzero_small: "i < 255 \<Longrightarrow> gf_pw i \<noteq> 0"
proof
  assume i: "i < 255" and z: "gf_pw i = 0"
  have "orbit 255 1 ! i \<in> set (orbit 255 1)"
    using i by (intro nth_mem) simp
  then show False using orbit_nonzero gf_pw_orbit [OF i] z by simp
qed

lemma gf_pw_add: "gf_pw (i + j) = (xtime ^^ i) (gf_pw j)"
  by (induction i) simp_all

lemma gf_pw_period: "gf_pw (i + 255) = gf_pw i"
  unfolding gf_pw_add gf_pw_255 by (simp add: gf_pw_funpow)

lemma gf_pw_mult_period: "gf_pw (i + 255 * q) = gf_pw i"
proof (induction q)
  case 0
  then show ?case by simp
next
  case (Suc q)
  have "i + 255 * Suc q = (i + 255 * q) + 255" by simp
  then have "gf_pw (i + 255 * Suc q) = gf_pw ((i + 255 * q) + 255)" by (rule arg_cong)
  then show ?case using Suc by (simp only: gf_pw_period)
qed

lemma gf_pw_mod: "gf_pw (i mod 255) = gf_pw i"
  using gf_pw_mult_period [of "i mod 255" "i div 255"] by simp

lemma gf_pw_cong: "i mod 255 = j mod 255 \<Longrightarrow> gf_pw i = gf_pw j"
  using gf_pw_mod [of i] gf_pw_mod [of j] by simp

lemma gf_pw_nonzero: "gf_pw i \<noteq> 0"
  using gf_pw_nonzero_small [of "i mod 255"] gf_pw_mod [of i] by simp

lemma gf_pw_surj:
  assumes "a \<noteq> 0"
  shows "\<exists>i<255. gf_pw i = a"
proof -
  have inj: "inj_on gf_pw {..<255}"
    by (rule inj_onI) (auto dest: gf_pw_inj)
  have sub: "gf_pw ` {..<255} \<subseteq> UNIV - {0}"
    using gf_pw_nonzero by auto
  have "card (gf_pw ` {..<255}) = 255"
    using inj by (simp add: card_image)
  moreover have "card (UNIV - {0 :: gf}) = 255"
    by (simp add: card_Diff_singleton card_word)
  ultimately have "gf_pw ` {..<255} = UNIV - {0}"
    using sub by (intro card_subset_eq) auto
  then have "a \<in> gf_pw ` {..<255}" using assms by simp
  then show ?thesis by auto
qed

subsection \<open>The exponent and logarithm tables\<close>

lemma uint_step:
  "uint (gf_pw (Suc k)) =
     (push_bit 1 (uint (gf_pw k)) XOR (if uint (gf_pw k) AND 0x80 \<noteq> 0 then 0x1d else 0)) AND 0xFF"
proof -
  let ?y = "push_bit 1 (uint (gf_pw k)) XOR (if uint (gf_pw k) AND 0x80 \<noteq> 0 then 0x1d else 0)"
  have "(word_of_int (?y AND 0xFF) :: gf) = xtime (word_of_int (uint (gf_pw k)))"
    by (rule init_step_xtime)
  then have "(word_of_int (?y AND 0xFF) :: gf) = gf_pw (Suc k)" by simp
  then have "uint (gf_pw (Suc k)) = uint (word_of_int (?y AND 0xFF) :: gf)" by simp
  also have "\<dots> = take_bit 8 (?y AND 0xFF)"
    by (simp add: uint_word_of_int_eq)
  also have "\<dots> = ?y AND 0xFF"
    using init_step_range [of ?y] by (intro take_bit_int_eq_self) auto
  finally show ?thesis .
qed

lemma init_exp_log_loop:
  assumes "k \<le> 255" and "255 \<le> length (gf_exp T0)" and "length (gf_log T0) = 256"
  shows "\<exists>T. fold init_exp_log [0..<k] (1, T0) = (uint (gf_pw k), T) \<and>
           length (gf_exp T) = length (gf_exp T0) \<and>
           (\<forall>i<k. gf_exp T ! i = gf_pw i) \<and>
           length (gf_log T) = 256 \<and>
           (\<forall>i<k. gf_log T ! unat (gf_pw i) = int i) \<and>
           gf_mul_table T = gf_mul_table T0 \<and> gf_div_table T = gf_div_table T0"
  using assms(1)
proof (induction k)
  case 0
  then show ?case using assms(3) by simp
next
  case (Suc k)
  then obtain T where
    run: "fold init_exp_log [0..<k] (1, T0) = (uint (gf_pw k), T)"
    and le: "length (gf_exp T) = length (gf_exp T0)"
    and ex: "\<forall>i<k. gf_exp T ! i = gf_pw i"
    and ll: "length (gf_log T) = 256"
    and lg: "\<forall>i<k. gf_log T ! unat (gf_pw i) = int i"
    and tb: "gf_mul_table T = gf_mul_table T0" "gf_div_table T = gf_div_table T0"
    by force
  let ?T = "T\<lparr>gf_exp := (gf_exp T)[k := gf_pw k], gf_log := (gf_log T)[unat (gf_pw k) := int k]\<rparr>"
  have k: "k < 255" using Suc.prems by simp
  have "fold init_exp_log [0..<Suc k] (1, T0) = init_exp_log k (uint (gf_pw k), T)"
    using run by simp
  also have "\<dots> = (uint (gf_pw (Suc k)), ?T)"
    unfolding init_exp_log_def uint_step [of k] by simp
  finally have r: "fold init_exp_log [0..<Suc k] (1, T0) = (uint (gf_pw (Suc k)), ?T)" .
  have e: "\<forall>i<Suc k. gf_exp ?T ! i = gf_pw i"
    using ex k le assms(2) by (auto simp: nth_list_update less_Suc_eq)
  have "unat (gf_pw k) < 2 ^ LENGTH(8)" by (rule unsigned_less)
  then have u: "unat (gf_pw k) < 256" by simp
  have g: "\<forall>i<Suc k. gf_log ?T ! unat (gf_pw i) = int i"
  proof (intro allI impI)
    fix i assume i: "i < Suc k"
    show "gf_log ?T ! unat (gf_pw i) = int i"
    proof (cases "i = k")
      case True
      then show ?thesis using u ll by simp
    next
      case False
      then have ik: "i < k" using i by simp
      then have "gf_pw i \<noteq> gf_pw k" using gf_pw_inj [of i k] k by auto
      then have "unat (gf_pw i) \<noteq> unat (gf_pw k)" by (simp add: word_unat_eq_iff)
      then show ?thesis using lg ik by simp
    qed
  qed
  show ?case using r le e ll g tb by (intro exI [of _ ?T]) simp
qed

lemma init_exp_copy_loop:
  "\<forall>j \<in> set js. 256 \<le> j \<Longrightarrow>
   gf_log (fold init_exp_copy js T) = gf_log T \<and>
   gf_mul_table (fold init_exp_copy js T) = gf_mul_table T \<and>
   gf_div_table (fold init_exp_copy js T) = gf_div_table T \<and>
   length (gf_exp (fold init_exp_copy js T)) = length (gf_exp T) \<and>
   (\<forall>i<256. gf_exp (fold init_exp_copy js T) ! i = gf_exp T ! i)"
proof (induction js arbitrary: T)
  case Nil
  then show ?case by simp
next
  case (Cons j js)
  have j: "256 \<le> j" using Cons.prems by simp
  have "\<forall>i<256. gf_exp (init_exp_copy j T) ! i = gf_exp T ! i"
    using j by (simp add: init_exp_copy_def)
  moreover have "gf_log (init_exp_copy j T) = gf_log T"
    "gf_mul_table (init_exp_copy j T) = gf_mul_table T"
    "gf_div_table (init_exp_copy j T) = gf_div_table T"
    "length (gf_exp (init_exp_copy j T)) = length (gf_exp T)"
    by (simp_all add: init_exp_copy_def)
  ultimately show ?case
    using Cons.IH [of "init_exp_copy j T"] Cons.prems by simp
qed

lemma exp_log_tables_facts:
  shows exp_log_tables_exp: "i < 255 \<Longrightarrow> gf_exp exp_log_tables ! i = gf_pw i"
    and exp_log_tables_log: "i < 255 \<Longrightarrow> gf_log exp_log_tables ! unat (gf_pw i) = int i"
    and exp_log_tables_mul: "gf_mul_table exp_log_tables = replicate 65536 0"
    and exp_log_tables_div: "gf_div_table exp_log_tables = replicate 65536 0"
    and exp_log_tables_len: "length (gf_exp exp_log_tables) = 512"
proof -
  have "\<exists>T. fold init_exp_log [0..<255] (1, gf_globals) = (uint (gf_pw 255), T) \<and>
           length (gf_exp T) = length (gf_exp gf_globals) \<and>
           (\<forall>i<255. gf_exp T ! i = gf_pw i) \<and>
           length (gf_log T) = 256 \<and>
           (\<forall>i<255. gf_log T ! unat (gf_pw i) = int i) \<and>
           gf_mul_table T = gf_mul_table gf_globals \<and> gf_div_table T = gf_div_table gf_globals"
    by (rule init_exp_log_loop) (simp_all add: gf_globals_def)
  then obtain T1 where
    run: "fold init_exp_log [0..<255] (1, gf_globals) = (uint (gf_pw 255), T1)"
    and ex: "\<forall>i<255. gf_exp T1 ! i = gf_pw i"
    and lg: "\<forall>i<255. gf_log T1 ! unat (gf_pw i) = int i"
    and tb: "gf_mul_table T1 = gf_mul_table gf_globals" "gf_div_table T1 = gf_div_table gf_globals"
    and le: "length (gf_exp T1) = length (gf_exp gf_globals)"
    by blast
  let ?T3 = "T1\<lparr>gf_exp := (gf_exp T1)[255 := 1], gf_log := (gf_log T1)[0 := - 1]\<rparr>"
  have T4: "exp_log_tables = fold init_exp_copy [256..<512] ?T3"
    unfolding exp_log_tables_def by (simp add: run)
  have copy: "gf_log exp_log_tables = gf_log ?T3 \<and>
      gf_mul_table exp_log_tables = gf_mul_table ?T3 \<and>
      gf_div_table exp_log_tables = gf_div_table ?T3 \<and>
      length (gf_exp exp_log_tables) = length (gf_exp ?T3) \<and>
      (\<forall>i<256. gf_exp exp_log_tables ! i = gf_exp ?T3 ! i)"
    unfolding T4 by (rule init_exp_copy_loop) simp
  show "i < 255 \<Longrightarrow> gf_exp exp_log_tables ! i = gf_pw i"
    using copy ex by simp
  show "i < 255 \<Longrightarrow> gf_log exp_log_tables ! unat (gf_pw i) = int i"
  proof -
    assume i: "i < 255"
    have "unat (gf_pw i) \<noteq> 0"
      using gf_pw_nonzero [of i] by (simp add: unat_eq_0)
    then show ?thesis using copy lg i by simp
  qed
  show "gf_mul_table exp_log_tables = replicate 65536 0"
    using copy tb by (simp add: gf_globals_def)
  show "gf_div_table exp_log_tables = replicate 65536 0"
    using copy tb by (simp add: gf_globals_def)
  show "length (gf_exp exp_log_tables) = 512"
    using copy le by (simp add: gf_globals_def)
qed

subsection \<open>The multiplication and division tables\<close>

lemma gf_mul_direct_cong:
  "gf_exp T = gf_exp T' \<Longrightarrow> gf_log T = gf_log T' \<Longrightarrow> gf_mul_direct T a b = gf_mul_direct T' a b"
  by (simp add: gf_mul_direct_def)

lemma gf_div_direct_cong:
  "gf_exp T = gf_exp T' \<Longrightarrow> gf_log T = gf_log T' \<Longrightarrow> gf_div_direct T a b = gf_div_direct T' a b"
  by (simp add: gf_div_direct_def)

lemma gf_div_direct_Inr:
  "b \<noteq> 0 \<Longrightarrow> gf_div_direct T a b = Inr (projr (gf_div_direct T a b))"
  by (simp add: gf_div_direct_def)

lemma of_nat_byte_nonzero: "0 < j \<Longrightarrow> j < 256 \<Longrightarrow> (of_nat j :: gf) \<noteq> 0"
  by (simp add: word_of_nat_eq_0_iff dvd_def) arith

lemma cell_index: "j < 256 \<Longrightarrow> (i * 256 + j) div 256 = (i::nat) \<and> (i * 256 + j) mod 256 = j"
  by simp

lemma mul_div_filled_step:
  assumes f: "mul_div_filled T0 (i * 256 + j) T" and j: "j < 256"
    and l: "i * 256 + j < length (gf_mul_table T0)" "i * 256 + j < length (gf_div_table T0)"
  shows "\<exists>T'. init_mul_div i j T = Inr T' \<and> mul_div_filled T0 (i * 256 + j + 1) T'"
proof -
  let ?c = "i * 256 + j"
  let ?m = "gf_mul_direct T0 (of_nat i) (of_nat j)"
  let ?q = "projr (gf_div_direct T0 (of_nat i) (of_nat j))"
  let ?T1 = "T\<lparr>gf_mul_table := (gf_mul_table T)[?c := ?m]\<rparr>"
  let ?T' = "?T1\<lparr>gf_div_table := (if j \<noteq> 0 then (gf_div_table T)[?c := ?q] else gf_div_table T)\<rparr>"
  from f have el: "gf_exp T = gf_exp T0" "gf_log T = gf_log T0"
    and len: "length (gf_mul_table T) = length (gf_mul_table T0)"
      "length (gf_div_table T) = length (gf_div_table T0)"
    and mt: "\<And>idx. gf_mul_table T ! idx =
        (if idx < ?c then gf_mul_direct T0 (of_nat (idx div 256)) (of_nat (idx mod 256))
         else gf_mul_table T0 ! idx)"
    and dt: "\<And>idx. gf_div_table T ! idx =
        (if idx < ?c \<and> idx mod 256 \<noteq> 0
         then projr (gf_div_direct T0 (of_nat (idx div 256)) (of_nat (idx mod 256)))
         else gf_div_table T0 ! idx)"
    unfolding mul_div_filled_def by blast+
  have m: "gf_mul_direct T (of_nat i) (of_nat j) = ?m"
    using el by (rule gf_mul_direct_cong)
  have q: "j \<noteq> 0 \<Longrightarrow> gf_div_direct ?T1 (of_nat i) (of_nat j) = Inr ?q"
  proof -
    assume "j \<noteq> 0"
    then have nz: "(of_nat j :: gf) \<noteq> 0" using j by (intro of_nat_byte_nonzero) auto
    have "gf_div_direct ?T1 (of_nat i) (of_nat j) = gf_div_direct T0 (of_nat i) (of_nat j)"
      using el by (intro gf_div_direct_cong) simp_all
    then show ?thesis using gf_div_direct_Inr [OF nz] by simp
  qed
  have step: "init_mul_div i j T = Inr ?T'"
    unfolding init_mul_div_def Let_def m using q by (cases "j = 0") simp_all
  have ci: "?c div 256 = i" "?c mod 256 = j" using j by simp_all
  have mt': "\<And>idx. gf_mul_table ?T' ! idx =
        (if idx < ?c + 1 then gf_mul_direct T0 (of_nat (idx div 256)) (of_nat (idx mod 256))
         else gf_mul_table T0 ! idx)"
  proof -
    fix idx
    show "gf_mul_table ?T' ! idx =
        (if idx < ?c + 1 then gf_mul_direct T0 (of_nat (idx div 256)) (of_nat (idx mod 256))
         else gf_mul_table T0 ! idx)"
    proof (cases "idx = ?c")
      case True
      then show ?thesis using l len ci by simp
    next
      case False
      then show ?thesis using mt [of idx] by auto
    qed
  qed
  have dt': "\<And>idx. gf_div_table ?T' ! idx =
        (if idx < ?c + 1 \<and> idx mod 256 \<noteq> 0
         then projr (gf_div_direct T0 (of_nat (idx div 256)) (of_nat (idx mod 256)))
         else gf_div_table T0 ! idx)"
  proof -
    fix idx
    show "gf_div_table ?T' ! idx =
        (if idx < ?c + 1 \<and> idx mod 256 \<noteq> 0
         then projr (gf_div_direct T0 (of_nat (idx div 256)) (of_nat (idx mod 256)))
         else gf_div_table T0 ! idx)"
    proof (cases "idx = ?c")
      case True
      show ?thesis
      proof (cases "j = 0")
        case j0: True
        have "gf_div_table T ! ?c = gf_div_table T0 ! ?c" using dt [of ?c] by simp
        then show ?thesis using True j0 ci by simp
      next
        case False
        then show ?thesis using True l len ci by simp
      qed
    next
      case False
      then show ?thesis using dt [of idx] by auto
    qed
  qed
  have "mul_div_filled T0 (?c + 1) ?T'"
    unfolding mul_div_filled_def using el len mt' dt' by simp
  with step show ?thesis by blast
qed

lemma mul_div_filled_row:
  assumes l: "(i + 1) * 256 \<le> length (gf_mul_table T0)" "(i + 1) * 256 \<le> length (gf_div_table T0)"
  shows "n \<le> 256 \<Longrightarrow> mul_div_filled T0 (i * 256) T \<Longrightarrow>
         \<exists>T'. for_each [0..<n] (init_mul_div i) T = Inr T' \<and> mul_div_filled T0 (i * 256 + n) T'"
proof (induction n)
  case 0
  then show ?case by simp
next
  case (Suc n)
  then obtain T1 where r1: "for_each [0..<n] (init_mul_div i) T = Inr T1"
    and f1: "mul_div_filled T0 (i * 256 + n) T1" by auto
  have n: "n < 256" using Suc.prems by simp
  have "i * 256 + n < length (gf_mul_table T0)" "i * 256 + n < length (gf_div_table T0)"
    using l n by simp_all
  from mul_div_filled_step [OF f1 n this] obtain T2 where
    "init_mul_div i n T1 = Inr T2" "mul_div_filled T0 (i * 256 + n + 1) T2" by blast
  then show ?case unfolding for_each_snoc r1 by simp
qed

lemma mul_div_filled_all:
  assumes l: "length (gf_mul_table T0) = 65536" "length (gf_div_table T0) = 65536"
  shows "m \<le> 256 \<Longrightarrow>
         \<exists>T'. for_each [0..<m] (\<lambda>i. for_each [0..<256] (init_mul_div i)) T0 = Inr T' \<and>
              mul_div_filled T0 (m * 256) T'"
proof (induction m)
  case 0
  have "mul_div_filled T0 0 T0" by (simp add: mul_div_filled_def)
  then show ?case by simp
next
  case (Suc m)
  then obtain T1 where
    r1: "for_each [0..<m] (\<lambda>i. for_each [0..<256] (init_mul_div i)) T0 = Inr T1"
    and f1: "mul_div_filled T0 (m * 256) T1" by auto
  have m: "m < 256" using Suc.prems by simp
  have "(m + 1) * 256 \<le> length (gf_mul_table T0)" "(m + 1) * 256 \<le> length (gf_div_table T0)"
    using l m by simp_all
  from mul_div_filled_row [OF this _ f1, of 256] obtain T2 where
    "for_each [0..<256] (init_mul_div m) T1 = Inr T2" "mul_div_filled T0 (m * 256 + 256) T2"
    by auto
  then show ?case unfolding for_each_snoc r1 by (simp add: add.commute)
qed

lemma init_gf_filled:
  "init_gf gf_globals = Inr GF256 \<and> mul_div_filled exp_log_tables 65536 GF256"
proof -
  have eq: "init_gf gf_globals =
      for_each [0..<256] (\<lambda>i. for_each [0..<256] (init_mul_div i)) exp_log_tables"
    unfolding init_gf_def exp_log_tables_def by (simp add: Let_def split: prod.splits)
  have "length (gf_mul_table exp_log_tables) = 65536" "length (gf_div_table exp_log_tables) = 65536"
    by (simp_all add: exp_log_tables_mul exp_log_tables_div)
  from mul_div_filled_all [OF this, of 256] obtain T where
    r: "for_each [0..<256] (\<lambda>i. for_each [0..<256] (init_mul_div i)) exp_log_tables = Inr T"
    and f: "mul_div_filled exp_log_tables 65536 T" by auto
  have "GF256 = T" unfolding GF256_def eq r by simp
  then show ?thesis using eq r f by simp
qed

lemma init_gf_ok: "init_gf gf_globals = Inr GF256"
  using init_gf_filled by simp

lemma GF256_exp: "i < 255 \<Longrightarrow> gf_exp GF256 ! i = gf_pw i"
  using init_gf_filled exp_log_tables_exp by (simp add: mul_div_filled_def)

lemma GF256_exp_length: "length (gf_exp GF256) = 512"
  using init_gf_filled exp_log_tables_len by (simp add: mul_div_filled_def)

lemma GF256_log: "i < 255 \<Longrightarrow> gf_log GF256 ! unat (gf_pw i) = int i"
  using init_gf_filled exp_log_tables_log by (simp add: mul_div_filled_def)

lemma byte_index: "unat (a::gf) * 256 + unat (b::gf) < 65536"
proof -
  have "unat a < 2 ^ LENGTH(8)" "unat b < 2 ^ LENGTH(8)" by (rule unsigned_less)+
  then show ?thesis by simp
qed

lemma byte_index_div_mod:
  "(unat (a::gf) * 256 + unat (b::gf)) div 256 = unat a \<and>
   (unat (a::gf) * 256 + unat (b::gf)) mod 256 = unat b"
proof -
  have "unat b < 2 ^ LENGTH(8)" by (rule unsigned_less)
  then show ?thesis by simp
qed

lemma GF256_mul: "gf_mul GF256 a b = gf_mul_direct GF256 a b"
proof -
  have f: "mul_div_filled exp_log_tables 65536 GF256" using init_gf_filled by simp
  then have "gf_mul_table GF256 ! (unat a * 256 + unat b) =
      gf_mul_direct exp_log_tables (of_nat (unat a)) (of_nat (unat b))"
    unfolding mul_div_filled_def using byte_index [of a b] byte_index_div_mod [of a b] by simp
  also have "\<dots> = gf_mul_direct exp_log_tables a b" by simp
  also have "\<dots> = gf_mul_direct GF256 a b"
    using f by (intro gf_mul_direct_cong) (simp_all add: mul_div_filled_def)
  finally show ?thesis by (simp add: gf_mul_def)
qed

lemma GF256_div: "b \<noteq> 0 \<Longrightarrow> gf_div_direct GF256 a b = Inr (gf_div GF256 a b)"
proof -
  assume b: "b \<noteq> 0"
  have f: "mul_div_filled exp_log_tables 65536 GF256" using init_gf_filled by simp
  have nz: "(unat a * 256 + unat b) mod 256 \<noteq> 0"
    using byte_index_div_mod [of a b] b by (simp add: unat_eq_0)
  have "gf_div_table GF256 ! (unat a * 256 + unat b) =
      projr (gf_div_direct exp_log_tables (of_nat (unat a)) (of_nat (unat b)))"
    using f nz byte_index [of a b] byte_index_div_mod [of a b]
    unfolding mul_div_filled_def by simp
  also have "gf_div_direct exp_log_tables (of_nat (unat a)) (of_nat (unat b)) =
      gf_div_direct exp_log_tables a b" by simp
  also have "gf_div_direct exp_log_tables a b = gf_div_direct GF256 a b"
    using f by (intro gf_div_direct_cong) (simp_all add: mul_div_filled_def)
  finally have "gf_div GF256 a b = projr (gf_div_direct GF256 a b)"
    by (simp add: gf_div_def)
  then show ?thesis using gf_div_direct_Inr [OF b, of GF256 a] by simp
qed

lemma GF256_div_zero: "gf_div GF256 a 0 = 0"
proof -
  have f: "mul_div_filled exp_log_tables 65536 GF256" using init_gf_filled by simp
  have u: "unat a < 256"
    using unsigned_less [of a, where 'a = nat] by simp
  have "gf_div_table GF256 ! (unat a * 256) = gf_div_table exp_log_tables ! (unat a * 256)"
    using f unfolding mul_div_filled_def by simp
  also have "\<dots> = 0"
    using u by (simp add: exp_log_tables_div)
  finally show ?thesis by (simp add: gf_div_def)
qed

subsection \<open>Field arithmetic of the tables\<close>

lemma dlog_pw: "i < 255 \<Longrightarrow> dlog (gf_pw i) = i"
  by (simp add: dlog_def GF256_log)

lemma pw_dlog:
  assumes "a \<noteq> 0"
  shows "dlog a < 255" and "gf_pw (dlog a) = a" and "gf_log GF256 ! unat a = int (dlog a)"
proof -
  from gf_pw_surj [OF assms] obtain i where i: "i < 255" "gf_pw i = a" by blast
  then have d: "dlog a = i" using dlog_pw [of i] by simp
  show "dlog a < 255" using d i by simp
  show "gf_pw (dlog a) = a" using d i by simp
  show "gf_log GF256 ! unat a = int (dlog a)" using d i GF256_log [of i] by simp
qed

lemma smod_nonneg: "0 \<le> a \<Longrightarrow> a smod (255::int) = a mod 255"
  by (cases "a = 0") (simp_all add: smod_int_alt_def)

lemma gf_mul_zero_left [simp]: "gf_mul GF256 0 b = 0"
  by (simp add: GF256_mul gf_mul_direct_def)

lemma gf_mul_zero_right [simp]: "gf_mul GF256 a 0 = 0"
  by (simp add: GF256_mul gf_mul_direct_def)

lemma gf_mul_pw:
  assumes "a \<noteq> 0" "b \<noteq> 0"
  shows "gf_mul GF256 a b = gf_pw (dlog a + dlog b)"
proof -
  have "gf_mul GF256 a b = gf_exp GF256 ! nat ((int (dlog a) + int (dlog b)) smod 255)"
    using assms by (simp add: GF256_mul gf_mul_direct_def pw_dlog)
  also have "(int (dlog a) + int (dlog b)) smod 255 = int ((dlog a + dlog b) mod 255)"
    by (simp add: smod_nonneg zmod_int)
  also have "gf_exp GF256 ! nat (int ((dlog a + dlog b) mod 255)) = gf_pw ((dlog a + dlog b) mod 255)"
    by (simp add: GF256_exp)
  finally show ?thesis by (simp add: gf_pw_mod)
qed

lemma gf_div_zero_left: "b \<noteq> 0 \<Longrightarrow> gf_div GF256 0 b = 0"
  using GF256_div [of b 0] by (simp add: gf_div_direct_def)

lemma gf_div_pw:
  assumes "a \<noteq> 0" "b \<noteq> 0"
  shows "gf_div GF256 a b = gf_pw (dlog a + 255 - dlog b)"
proof -
  have lb: "dlog b < 255" using assms by (simp add: pw_dlog)
  have "Inr (gf_div GF256 a b) =
      (Inr (gf_exp GF256 ! nat ((int (dlog a) - int (dlog b) + 255) smod 255)) :: error + gf)"
    using assms GF256_div [of b a] by (simp add: gf_div_direct_def pw_dlog)
  then have "gf_div GF256 a b = gf_exp GF256 ! nat ((int (dlog a) - int (dlog b) + 255) smod 255)"
    by simp
  also have "int (dlog a) - int (dlog b) + 255 = int (dlog a + 255 - dlog b)"
    using lb by simp
  also have "int (dlog a + 255 - dlog b) smod 255 = int ((dlog a + 255 - dlog b) mod 255)"
    by (simp add: smod_nonneg zmod_int)
  also have "gf_exp GF256 ! nat (int ((dlog a + 255 - dlog b) mod 255)) =
      gf_pw ((dlog a + 255 - dlog b) mod 255)"
    by (simp add: GF256_exp)
  finally show ?thesis by (simp add: gf_pw_mod)
qed

lemma gf_mul_nonzero: "a \<noteq> 0 \<Longrightarrow> b \<noteq> 0 \<Longrightarrow> gf_mul GF256 a b \<noteq> 0"
  by (simp add: gf_mul_pw gf_pw_nonzero)

lemma gf_div_nonzero: "a \<noteq> 0 \<Longrightarrow> b \<noteq> 0 \<Longrightarrow> gf_div GF256 a b \<noteq> 0"
  by (simp add: gf_div_pw gf_pw_nonzero)

lemma dlog_pw_mod: "dlog (gf_pw i) = i mod 255"
  using dlog_pw [of "i mod 255"] by (simp add: gf_pw_mod)

lemma gf_mul_comm: "gf_mul GF256 a b = gf_mul GF256 b a"
  by (cases "a = 0"; cases "b = 0") (simp_all add: gf_mul_pw add.commute)

lemma gf_mul_assoc: "gf_mul GF256 (gf_mul GF256 a b) c = gf_mul GF256 a (gf_mul GF256 b c)"
proof (cases "a = 0 \<or> b = 0 \<or> c = 0")
  case True
  then show ?thesis by auto
next
  case False
  then have n: "a \<noteq> 0" "b \<noteq> 0" "c \<noteq> 0" by auto
  have "gf_mul GF256 (gf_mul GF256 a b) c = gf_pw ((dlog a + dlog b) mod 255 + dlog c)"
    using n by (simp add: gf_mul_pw [of "gf_mul GF256 a b" c] gf_mul_nonzero)
      (simp add: gf_mul_pw dlog_pw_mod)
  also have "\<dots> = gf_pw (dlog a + (dlog b + dlog c) mod 255)"
    by (rule gf_pw_cong) (simp add: mod_simps add.assoc)
  also have "\<dots> = gf_mul GF256 a (gf_mul GF256 b c)"
    using n by (simp add: gf_mul_pw [of a "gf_mul GF256 b c"] gf_mul_nonzero)
      (simp add: gf_mul_pw dlog_pw_mod)
  finally show ?thesis .
qed

lemma dlog_one: "dlog 1 = 0"
  using dlog_pw [of 0] by simp

lemma gf_mul_one_left [simp]: "gf_mul GF256 1 a = a"
  by (cases "a = 0") (simp_all add: gf_mul_pw dlog_one pw_dlog)

lemma gf_mul_one_right [simp]: "gf_mul GF256 a 1 = a"
  by (simp add: gf_mul_comm [of a 1])

lemma gf_div_mul_cancel:
  assumes "b \<noteq> 0"
  shows "gf_div GF256 (gf_mul GF256 a b) b = a"
proof (cases "a = 0")
  case True
  then show ?thesis using assms by (simp add: gf_div_zero_left)
next
  case False
  have lb: "dlog b < 255" using assms by (simp add: pw_dlog)
  have "gf_div GF256 (gf_mul GF256 a b) b = gf_pw ((dlog a + dlog b) mod 255 + 255 - dlog b)"
    using False assms by (simp add: gf_div_pw gf_mul_nonzero) (simp add: gf_mul_pw dlog_pw_mod)
  also have "\<dots> = gf_pw (dlog a)"
  proof (rule gf_pw_cong)
    have "(dlog a + dlog b) mod 255 + 255 - dlog b = (dlog a + dlog b) mod 255 + (255 - dlog b)"
      using lb by simp
    then have "((dlog a + dlog b) mod 255 + 255 - dlog b) mod 255 =
        (dlog a + dlog b + (255 - dlog b)) mod 255"
      by (simp add: mod_simps)
    also have "dlog a + dlog b + (255 - dlog b) = dlog a + 255" using lb by simp
    finally show "((dlog a + dlog b) mod 255 + 255 - dlog b) mod 255 = dlog a mod 255" by simp
  qed
  finally show ?thesis using False by (simp add: pw_dlog)
qed

lemma gf_mul_div_cancel:
  assumes "b \<noteq> 0"
  shows "gf_mul GF256 (gf_div GF256 a b) b = a"
proof (cases "a = 0")
  case True
  then show ?thesis using assms by (simp add: gf_div_zero_left)
next
  case False
  have lb: "dlog b < 255" using assms by (simp add: pw_dlog)
  have "gf_mul GF256 (gf_div GF256 a b) b = gf_pw ((dlog a + 255 - dlog b) mod 255 + dlog b)"
    using False assms by (simp add: gf_mul_pw gf_div_nonzero) (simp add: gf_div_pw dlog_pw_mod)
  also have "\<dots> = gf_pw (dlog a)"
  proof (rule gf_pw_cong)
    have "((dlog a + 255 - dlog b) mod 255 + dlog b) mod 255 =
        (dlog a + 255 - dlog b + dlog b) mod 255"
      by (simp add: mod_simps)
    also have "dlog a + 255 - dlog b + dlog b = dlog a + 255" using lb by simp
    finally show "((dlog a + 255 - dlog b) mod 255 + dlog b) mod 255 = dlog a mod 255" by simp
  qed
  finally show ?thesis using False by (simp add: pw_dlog)
qed

lemma funpow_xtime_xor: "(xtime ^^ n) (u XOR v) = (xtime ^^ n) u XOR (xtime ^^ n) v"
  by (induction n) (simp_all add: xtime_xor)

lemma funpow_xtime_zero: "(xtime ^^ n) 0 = 0"
  by (induction n) simp_all

lemma gf_mul_funpow: "a \<noteq> 0 \<Longrightarrow> gf_mul GF256 a b = (xtime ^^ dlog a) b"
proof (cases "b = 0")
  case True
  then show ?thesis by (simp add: funpow_xtime_zero)
next
  case False
  assume "a \<noteq> 0"
  then have "gf_mul GF256 a b = (xtime ^^ dlog a) (gf_pw (dlog b))"
    using False by (simp add: gf_mul_pw gf_pw_add)
  then show ?thesis using False by (simp add: pw_dlog)
qed

lemma gf_mul_xor_right:
  "gf_mul GF256 a (b XOR c) = gf_mul GF256 a b XOR gf_mul GF256 a c"
  by (cases "a = 0") (simp_all add: gf_mul_funpow funpow_xtime_xor)

lemma gf_mul_xor_left:
  "gf_mul GF256 (a XOR b) c = gf_mul GF256 a c XOR gf_mul GF256 b c"
  using gf_mul_xor_right [of c a b] by (simp add: gf_mul_comm)

lemma gf_mul_inverse: "b \<noteq> 0 \<Longrightarrow> gf_mul GF256 b (gf_div GF256 1 b) = 1"
  using gf_mul_div_cancel [of b 1] by (simp add: gf_mul_comm)

subsection \<open>Evaluating table entries\<close>

lemma gf_mul_eval:
  assumes "gf_pw i = a" "gf_pw j = b" "i < 255" "j < 255"
  shows "gf_mul GF256 a b = gf_pw ((i + j) mod 255)"
proof -
  have "a \<noteq> 0" "b \<noteq> 0" using assms gf_pw_nonzero by auto
  moreover have "dlog a = i" "dlog b = j" using assms dlog_pw by auto
  ultimately show ?thesis by (simp add: gf_mul_pw gf_pw_mod)
qed

lemma gf_div_eval:
  assumes "gf_pw i = a" "gf_pw j = b" "i < 255" "j < 255"
  shows "gf_div GF256 a b = gf_pw ((i + 255 - j) mod 255)"
proof -
  have "a \<noteq> 0" "b \<noteq> 0" using assms gf_pw_nonzero by auto
  moreover have "dlog a = i" "dlog b = j" using assms dlog_pw by auto
  ultimately show ?thesis by (simp add: gf_div_pw gf_pw_mod)
qed

lemma gf_pw_1: "gf_pw 1 = 2"
  by (simp add: xtime_1)

lemma gf_pw_values:
  shows gf_pw_8: "gf_pw 8 = 0x1D"
    and gf_pw_24: "gf_pw 24 = 0x8F" and gf_pw_49: "gf_pw 49 = 0x8C"
    and gf_pw_73: "gf_pw 73 = 0xCA" and gf_pw_206: "gf_pw 206 = 0x53"
    and gf_pw_231: "gf_pw 231 = 0xF5" and gf_pw_25: "gf_pw 25 = 3"
    and gf_pw_189: "gf_pw 189 = 0x57" and gf_pw_14: "gf_pw 14 = 0x13"
    and gf_pw_198: "gf_pw 198 = 7"
  by (simp_all add: gf_pw_orbit [of _ 255] orbit_255)

text \<open>
  Claim C5. After \<^verbatim>\<open>init_gf\<close> has run on the zero-initialised globals, the table-driven
  operations are mutually inverse in the second argument: for every byte \<open>a\<close> and every non-zero
  byte \<open>b\<close>, \<open>gf_div (gf_mul a b) b = a\<close> and \<open>gf_mul (gf_div a b) b = a\<close>.
\<close>

theorem gf_mul_div_inverse:
  "b \<noteq> 0 \<Longrightarrow>
   init_gf gf_globals = Inr GF256 \<and>
   gf_div GF256 (gf_mul GF256 a b) b = a \<and> gf_mul GF256 (gf_div GF256 a b) b = a"
  by (simp add: init_gf_ok gf_div_mul_cancel gf_mul_div_cancel)

theorem gf_mul_div_inverse_witness:
  "init_gf gf_globals = Inr GF256 \<and>
   gf_div GF256 (gf_mul GF256 0x57 0x13) 0x13 = 0x57 \<and>
   gf_mul GF256 (gf_div GF256 0x57 0x13) 0x13 = 0x57"
  using gf_mul_div_inverse [of "0x13" "0x57"] by simp

text \<open>
  Claim C6, as amended. \<^verbatim>\<open>gf_div\<close> is a bare table lookup: \<^verbatim>\<open>init_gf\<close> skips column 0 of
  the division table (\<^verbatim>\<open>if (j != 0)\<close>), the table is a zero-initialised global, and so
  \<open>gf_div a 0\<close> returns 0 for every \<open>a\<close>. Nothing in \<^verbatim>\<open>gf_div\<close> stops the program.
\<close>

theorem gf_div_by_zero_returns_zero:
  "init_gf gf_globals = Inr GF256 \<and> gf_div GF256 a 0 = 0"
  by (simp add: init_gf_ok GF256_div_zero)

text \<open>
  Only the direct routine \<^verbatim>\<open>gf_div_direct\<close> ends the program on a zero divisor (and only for
  a non-zero dividend); the lookup returns a value on the same input.
\<close>

theorem gf_div_by_zero_no_abort:
  "gf_div GF256 1 0 = 0 \<and> gf_div_direct GF256 1 0 = Inl DivisionByZero"
  by (simp add: GF256_div_zero gf_div_direct_def)

text \<open>
  Claim C9, as amended. In the field that \<^verbatim>\<open>init_gf\<close> builds (polynomial \<open>0x11D\<close>) the three
  sample values are \<open>gf_mul 0x53 0xCA = 0x8F\<close>, \<open>gf_div 0x01 0x53 = 0x8C\<close> and
  \<open>gf_pow 2 8 = 0x1D\<close>.
\<close>

theorem gf_sample_values:
  "gf_mul GF256 0x53 0xCA = 0x8F \<and> gf_div GF256 0x01 0x53 = 0x8C \<and> gf_pow GF256 2 8 = Inr 0x1D"
proof -
  have m: "gf_mul GF256 0x53 0xCA = 0x8F"
    using gf_mul_eval [OF gf_pw_206 gf_pw_73] by (simp add: gf_pw_24)
  have "gf_pw 0 = 1" by simp
  from gf_div_eval [OF this gf_pw_206] have d: "gf_div GF256 0x01 0x53 = 0x8C"
    by (simp add: gf_pw_49)
  have "gf_log GF256 ! unat (gf_pw 1) = int 1"
    by (rule GF256_log) simp
  then have l2: "gf_log GF256 ! unat (2::gf) = 1"
    unfolding gf_pw_1 by simp
  have "gf_exp GF256 ! 8 = 0x1D"
    using GF256_exp [of 8] by (simp add: gf_pw_8)
  then have p: "gf_pow GF256 2 8 = Inr 0x1D"
    unfolding gf_pow_def Let_def l2 by (simp add: smod_nonneg GF256_exp_length)
  show ?thesis using m d p by simp
qed

text \<open>
  The values \<open>0x53 * 0xCA = 0x01\<close> and \<open>0x01 / 0x53 = 0xCA\<close> belong to the field of polynomial
  \<open>0x11B\<close>; in the field of this program the product is not 1 and the quotient is not \<open>0xCA\<close>.
\<close>

theorem gf_sample_values_differ:
  "gf_mul GF256 0x53 0xCA \<noteq> 0x01 \<and> gf_div GF256 0x01 0x53 \<noteq> 0xCA"
proof -
  have m: "gf_mul GF256 0x53 0xCA = 0x8F"
    using gf_mul_eval [OF gf_pw_206 gf_pw_73] by (simp add: gf_pw_24)
  have "gf_pw 0 = 1" by simp
  from gf_div_eval [OF this gf_pw_206] have d: "gf_div GF256 0x01 0x53 = 0x8C"
    by (simp add: gf_pw_49)
  show ?thesis unfolding m d by simp
qed

subsection \<open>Bulk multiplication\<close>

lemma GF256_table_lengths:
  "length (gf_mul_table GF256) = 65536" "length (gf_div_table GF256) = 65536"
  using init_gf_filled exp_log_tables_mul exp_log_tables_div
  by (simp_all add: mul_div_filled_def)

lemma of_nat_byte: "j < 256 \<Longrightarrow> unat (of_nat j :: gf) = j"
  by (simp add: unat_of_nat)

lemma replicate_numeral: "replicate (numeral k) x = x # replicate (pred_numeral k) x"
  by (simp add: numeral_eq_Suc)

lemma upt_32:
  "[0..<32] = [0, 1, 2, 3, 4, 5, 6, 7, 8, 9, 10, 11, 12, 13, 14, 15, 16, 17, 18, 19, 20, 21, 22, 23,
               24, 25, 26, 27, 28, 29, 30, 31]"
  by (simp add: upt_rec)

lemma mul_table_row:
  assumes "j < 256"
  shows "drop (unat c * 256) (gf_mul_table GF256) ! j = gf_mul GF256 c (of_nat j)"
proof -
  have "unat c < 2 ^ LENGTH(8)" by (rule unsigned_less)
  then have "unat c * 256 + j < 65536" using assms by simp
  then show ?thesis
    using assms by (simp add: GF256_table_lengths gf_mul_def of_nat_byte)
qed

lemma lut_one:
  assumes "k + 16 \<le> 256"
  shows "mm_loadu_si128 (drop 256 (gf_mul_table GF256)) k = map of_nat [k..<k + 16]"
proof (rule nth_equalityI)
  show "length (mm_loadu_si128 (drop 256 (gf_mul_table GF256)) k) = length (map of_nat [k..<k + 16])"
    using assms by (simp add: mm_loadu_si128_def GF256_table_lengths)
next
  fix i assume "i < length (mm_loadu_si128 (drop 256 (gf_mul_table GF256)) k)"
  then have i: "i < 16" by (simp add: mm_loadu_si128_def)
  then have ki: "k + i < 256" using assms by simp
  have "drop (unat (1::gf) * 256) (gf_mul_table GF256) ! (k + i) = gf_mul GF256 1 (of_nat (k + i))"
    using ki by (rule mul_table_row)
  then have e: "drop 256 (gf_mul_table GF256) ! (k + i) = of_nat (k + i)"
    by simp
  have "mm_loadu_si128 (drop 256 (gf_mul_table GF256)) k ! i = drop 256 (gf_mul_table GF256) ! (k + i)"
    using i ki by (simp add: mm_loadu_si128_def GF256_table_lengths ac_simps)
  also have "\<dots> = map of_nat [k..<k + 16] ! i"
    unfolding e using i by simp
  finally show "mm_loadu_si128 (drop 256 (gf_mul_table GF256)) k ! i = map of_nat [k..<k + 16] ! i" .
qed

lemma avx2_loop_stop: "sz < int i + 64 \<Longrightarrow> avx2_loop chunk i sz dst = (i, dst)"
  by (subst avx2_loop.simps) simp

lemma avx2_loop_step:
  "int i + 64 \<le> sz \<Longrightarrow> avx2_loop chunk i sz dst = avx2_loop chunk (i + 64) sz (chunk i dst)"
  by (subst avx2_loop.simps) simp

lemma fold_update_map:
  "n \<le> length d \<Longrightarrow> fold (\<lambda>i d. d[i := g i]) [0..<n] d = map g [0..<n] @ drop n d"
proof (induction n)
  case 0
  then show ?case by simp
next
  case (Suc n)
  then have "fold (\<lambda>i d. d[i := g i]) [0..<Suc n] d = (map g [0..<n] @ drop n d)[n := g n]"
    by simp
  also have "\<dots> = map g [0..<n] @ (drop n d)[0 := g n]"
    by (simp add: list_update_append)
  also have "(drop n d)[0 := g n] = g n # drop (Suc n) d"
    using Suc.prems by (simp add: Cons_nth_drop_Suc [symmetric])
  finally show ?case by simp
qed

text \<open>
  Below 64 bytes only the scalar loop runs, and it stores the table product of every byte.
\<close>

lemma mul1_avx2_short:
  assumes "0 \<le> sz" "sz < 64" "sz \<le> int (length dst)" "sz \<le> int (length src)"
  shows "mul1_avx2 T dst src c sz =
           Inr (map (\<lambda>i. gf_mul_table T ! (unat c * 256 + unat (src ! i))) [0..<nat sz] @
                drop (nat sz) dst)"
proof -
  have "nat sz \<le> length dst" using assms by simp
  then show ?thesis
    using assms unfolding mul1_avx2_def
    by (simp add: avx2_loop_stop fold_update_map)
qed

text \<open>
  Claim C2 fails on the 64-byte path. With the multiplier 1 every table product is the source
  byte itself, so the claim asks for a copy of the source; on a 64-byte source whose first byte
  is \<open>0x10\<close> and whose other bytes are 0 the vector loop stores 1 at offsets 0 and 32 instead.
  Each output byte of the vector loop is an exclusive-or of four table entries selected by the
  nibbles of two source bytes 32 apart, taken at table offsets 0, 16, 32, 48 (first half) and
  64, 80, 96, 112 (second half).
\<close>

theorem mul1_avx2_chunk_differs:
  "mul1_avx2 GF256 (replicate 64 0) (0x10 # replicate 63 0) 1 64 =
     Inr (1 # replicate 31 0 @ 1 # replicate 31 0) \<and>
   map (\<lambda>x::gf. gf_mul_table GF256 ! (unat (1::gf) * 256 + unat x)) (0x10 # replicate 63 0) =
     0x10 # replicate 63 0"
proof -
  let ?src = "[0x10, 0, 0, 0, 0, 0, 0, 0, 0, 0, 0, 0, 0, 0, 0, 0, 0, 0, 0, 0, 0, 0, 0, 0, 0,
              0, 0, 0, 0, 0, 0, 0, 0, 0, 0, 0, 0, 0, 0, 0, 0, 0, 0, 0, 0, 0, 0, 0, 0, 0, 0, 0,
              0, 0, 0, 0, 0, 0, 0, 0, 0, 0, 0, 0] :: gf list"
  let ?v = "[1, 0, 0, 0, 0, 0, 0, 0, 0, 0, 0, 0, 0, 0, 0, 0, 0, 0, 0, 0, 0, 0, 0, 0, 0, 0,
            0, 0, 0, 0, 0, 0] :: gf list"
  let ?lut = "drop 256 (gf_mul_table GF256)"
  have row: "\<And>x. gf_mul_table GF256 ! (unat (1::gf) * 256 + unat x) = x"
  proof -
    fix x :: gf
    have "gf_mul GF256 1 x = x" by simp
    then show "gf_mul_table GF256 ! (unat (1::gf) * 256 + unat x) = x"
      by (simp add: gf_mul_def)
  qed
  have chunk: "mul_chunk ?lut ?src 0 = (?v, ?v)"
    unfolding mul_chunk_def Let_def mm256_shuffle_epi8_def mm256_srli_epi64_def upt_32
    by (simp add: lut_one mm256_broadcastsi128_si256_def mm256_set1_epi8_def
        mm256_loadu_si256_def mm256_and_si256_def mm256_xor_si256_def
        replicate_numeral upt_rec)
  have store: "mm256_storeu_si256 (mm256_storeu_si256 (replicate 64 0) 0 ?v) (0 + 32) ?v = ?v @ ?v"
    by (simp add: mm256_storeu_si256_def replicate_numeral)
  have "avx2_loop (\<lambda>i d. let (lo, hi) = mul_chunk ?lut ?src i
                         in mm256_storeu_si256 (mm256_storeu_si256 d i lo) (i + 32) hi)
        0 64 (replicate 64 0) =
      avx2_loop (\<lambda>i d. let (lo, hi) = mul_chunk ?lut ?src i
                         in mm256_storeu_si256 (mm256_storeu_si256 d i lo) (i + 32) hi)
        (0 + 64) 64 (let (lo, hi) = mul_chunk ?lut ?src 0
                     in mm256_storeu_si256 (mm256_storeu_si256 (replicate 64 0) 0 lo) (0 + 32) hi)"
    by (rule avx2_loop_step) simp
  also have "\<dots> = (0 + 64, let (lo, hi) = mul_chunk ?lut ?src 0
                     in mm256_storeu_si256 (mm256_storeu_si256 (replicate 64 0) 0 lo) (0 + 32) hi)"
    by (rule avx2_loop_stop) simp
  also have "\<dots> = (64, ?v @ ?v)"
    unfolding chunk Let_def prod.case store by simp
  finally have loop: "avx2_loop (\<lambda>i d. let (lo, hi) = mul_chunk ?lut ?src i
                         in mm256_storeu_si256 (mm256_storeu_si256 d i lo) (i + 32) hi)
        0 64 (replicate 64 0) = (64, ?v @ ?v)" .
  have src: "0x10 # replicate 63 0 = ?src" by (simp add: replicate_numeral)
  have v: "1 # replicate 31 0 = ?v" by (simp add: replicate_numeral)
  have "mul1_avx2 GF256 (replicate 64 0) ?src 1 64 = Inr (?v @ ?v)"
    unfolding mul1_avx2_def by (simp add: loop [unfolded Let_def])
  then have "mul1_avx2 GF256 (replicate 64 0) (0x10 # replicate 63 0) 1 64 =
      Inr (1 # replicate 31 0 @ 1 # replicate 31 0)"
    unfolding src v by (simp add: replicate_numeral)
  moreover have "map (\<lambda>x::gf. gf_mul_table GF256 ! (unat (1::gf) * 256 + unat x))
      (0x10 # replicate 63 0) = 0x10 # replicate 63 0"
    unfolding row by simp
  ultimately show ?thesis by simp
qed

subsection \<open>Exclusive-or sums\<close>

lemma xsum_0 [simp]: "xsum f 0 = 0"
  by (simp add: xsum_def)

lemma xsum_Suc [simp]: "xsum f (Suc n) = xsum f n XOR f n"
  by (simp add: xsum_def)


lemma xsum_zero [simp]: "xsum (\<lambda>k. 0) n = 0"
  by (induction n) simp_all





subsection \<open>Flat indexing\<close>

lemma idx_div_mod: "c < n \<Longrightarrow> (r * n + c) div n = r \<and> (r * n + c) mod n = (c::nat)"
  by simp




subsection \<open>The row operations on flat lists\<close>





subsection \<open>Row operations keep the invariant\<close>




subsection \<open>The steps of \<^verbatim>\<open>matrix_invert\<close>\<close>















subsection \<open>The generator matrix of \<^verbatim>\<open>rs_new\<close>\<close>








subsection \<open>The coder for one data shard and one parity shard\<close>

lemma gf_pw_0: "gf_pw 0 = 1"
  by simp

lemma gf_pw_values_more:
  shows gf_pw_230: "gf_pw 230 = 244" and gf_pw_174: "gf_pw 174 = 241"
  by (simp_all add: gf_pw_orbit [of _ 255] orbit_255)

lemma gf_div_1_2: "gf_div GF256 1 2 = 142"
  using gf_div_eval [OF gf_pw_0 gf_pw_1] by (simp add: gf_pw_254)

lemma gf_div_1_3: "gf_div GF256 1 3 = 244"
  using gf_div_eval [OF gf_pw_0 gf_pw_25] by (simp add: gf_pw_230)

lemma gf_div_1_142: "gf_div GF256 1 142 = 2"
  using gf_div_eval [OF gf_pw_0 gf_pw_254] by (simp add: xtime_1)

lemma gf_mul_142_2: "gf_mul GF256 142 2 = 1"
  using gf_mul_eval [OF gf_pw_254 gf_pw_1] by simp

lemma gf_mul_244_2: "gf_mul GF256 244 2 = 245"
  using gf_mul_eval [OF gf_pw_230 gf_pw_1] by (simp add: gf_pw_231)

lemma gf_mul_245_7: "gf_mul GF256 245 7 = 241"
  using gf_mul_eval [OF gf_pw_231 gf_pw_198] by (simp add: gf_pw_174)

lemma div_table_cells:
  "gf_div_table GF256 ! 258 = 142" "gf_div_table GF256 ! 259 = 244"
  "gf_div_table GF256 ! 398 = 2"
  using gf_div_1_2 gf_div_1_3 gf_div_1_142 by (simp_all add: gf_div_def)

lemma mul_table_cell: "gf_mul_table GF256 ! 62727 = 241"
  using gf_mul_245_7 by (simp add: gf_mul_def)

lemma upt_0_2: "[0..<2] = [0, Suc 0]"
  by (simp add: upt_rec)

lemma upt_1_2: "[Suc 0..<2] = [Suc 0]"
  by (simp add: upt_rec)

lemma xor_cells: "(256::nat) XOR Suc (Suc 0) = 258" "(257::nat) XOR Suc (Suc 0) = 259"
proof -
  have e: "Suc (Suc 0) = 2" by simp
  show "(256::nat) XOR Suc (Suc 0) = 258" "(257::nat) XOR Suc (Suc 0) = 259"
    unfolding e by simp_all
qed

lemma cauchy_2_1: "cauchy GF256 2 (Suc 0) = [142, 244]"
  by (simp add: cauchy_def upt_0_2 xor_cells div_table_cells)

lemma matrix_invert_142: "matrix_invert GF256 [142] (Suc 0) = (1, [2])"
  by (simp add: matrix_invert_def pivot_row_def scale_row_def eliminate_def
      div_table_cells gf_mul_142_2)

lemma matrix_invert_1: "matrix_invert GF256 [1] (Suc 0) = (1, [1])"
  by (simp add: matrix_invert_def pivot_row_def scale_row_def eliminate_def)

lemma rs_new_1_1:
  "rs_new GF256 1 1 =
     Some \<lparr>data_shards = 1, parity_shards = 1, shards = 2, matrix = [1, 245], parity = [245]\<rparr>"
  by (simp add: rs_new_def Let_def cauchy_2_1 sub_matrix_def multiply1_def matrix_invert_142
      upt_0_2 upt_1_2 gf_mul_142_2 gf_mul_244_2)

text \<open>
  Claim C1. Encoding and then decoding restores every erased shard, data or parity.  This fails
  when a parity shard is erased.  With the coder of \<^verbatim>\<open>rs_new(1, 1)\<close>, whose generator matrix is
  \<open>[1, 245]\<close>, the data shard \<open>[7]\<close> encodes to the parity shard \<open>[241]\<close>.  Erasing the parity shard
  (flags \<open>[0, 1]\<close>, one erasure) and decoding should return success with the buffers
  \<open>[[7], [241]]\<close>.  Instead \<^verbatim>\<open>rs_decode\<close> reads its coefficient for shard \<open>i = 1\<close> at
  \<^verbatim>\<open>submatrix[i * data_shards + j]\<close>, index 1 of the inverted \<open>1 \<times> 1\<close> matrix, past its end.
\<close>

theorem rs_decode_parity_erasure_out_of_bounds:
  "rs_new GF256 1 1 =
     Some \<lparr>data_shards = 1, parity_shards = 1, shards = 2, matrix = [1, 245], parity = [245]\<rparr> \<and>
   rs_encode GF256
     \<lparr>data_shards = 1, parity_shards = 1, shards = 2, matrix = [1, 245], parity = [245]\<rparr>
     [[7]] [[0]] 1 = Inr [[241]] \<and>
   rs_decode GF256
     \<lparr>data_shards = 1, parity_shards = 1, shards = 2, matrix = [1, 245], parity = [245]\<rparr>
     [[7], [0]] [0, 1] 1 1 = Inl OutOfBounds"
proof -
  let ?rs = "\<lparr>data_shards = 1, parity_shards = 1, shards = 2, matrix = [1, 245],
               parity = [245]\<rparr>"
  have mul: "mul1_avx2 GF256 [0] [7] 245 1 = Inr [241]"
    using mul1_avx2_short [of 1 "[0]" "[7]" GF256 245] by (simp add: mul_table_cell)
  have enc: "rs_encode GF256 ?rs [[7]] [[0]] 1 = Inr [[241]]"
    by (simp add: rs_encode_def encode_term_def rd_def mul)
  have col: "collect_valid ?rs [0, 1] [0, 1] ([], []) = Inr ([1], [0])"
    by (simp add: rd_def)
  have dec: "rs_decode GF256 ?rs [[7], [0]] [0, 1] 1 1 = Inl OutOfBounds"
    by (simp add: rs_decode_def Let_def col matrix_invert_1 upt_0_2 rd_def reconstruct_def
        memset_def)
  show ?thesis using rs_new_1_1 enc dec by simp
qed

text \<open>
  Claim C3. \<^verbatim>\<open>rs_generic_galois_coding\<close> writes every output shard buffer to the combination
  \<open>B \<cdot> A\<^sup>-\<^sup>1\<close> of the input shard buffers.  With the coder of \<^verbatim>\<open>rs_new(1, 1)\<close>, the shard ids
  \<open>[0, 1]\<close> (input shard 0, output shard 1) and the buffers \<open>[[7], [0]]\<close>, the output buffer should
  become \<open>[241]\<close> and the input buffer should stay \<open>[7]\<close>.  The call returns success, but the
  reconstruction loop addresses both its destination and its source as \<^verbatim>\<open>shards[i]\<close> and
  \<^verbatim>\<open>shards[j]\<close> from index 0: it overwrites the input buffer with \<open>[241]\<close> and leaves the output
  buffer as it was.
\<close>

theorem rs_generic_galois_coding_overwrites_input:
  "rs_new GF256 1 1 =
     Some \<lparr>data_shards = 1, parity_shards = 1, shards = 2, matrix = [1, 245], parity = [245]\<rparr> \<and>
   rs_generic_galois_coding GF256
     \<lparr>data_shards = 1, parity_shards = 1, shards = 2, matrix = [1, 245], parity = [245]\<rparr>
     [0, 1] 1 1 1 [[7], [0]] = Inr (1, [[241], [0]])"
proof -
  let ?rs = "\<lparr>data_shards = 1, parity_shards = 1, shards = 2, matrix = [1, 245],
               parity = [245]\<rparr>"
  have mul: "mul1_avx2 GF256 [7] [7] 245 1 = Inr [241]"
    using mul1_avx2_short [of 1 "[7]" "[7]" GF256 245] by (simp add: mul_table_cell)
  have mm: "matrix_multiply GF256 [245] [1] [0] (Suc 0) = [245]"
    by (simp add: matrix_multiply_def)
  have gen: "rs_generic_galois_coding GF256 ?rs [0, 1] 1 1 1 [[7], [0]] = Inr (1, [[241], [0]])"
    by (simp add: rs_generic_galois_coding_def Let_def rd_def copy_row_def matrix_invert_1 mm
        generic_term_def mul)
  show ?thesis using rs_new_1_1 gen by simp
qed

subsection \<open>A pair in range without a coder\<close>




subsection \<open>The bytes as a field\<close>

text \<open>A copy of the byte type with exclusive-or as addition and the table operations of
  \<^verbatim>\<open>init_gf\<close> as multiplication and division, to calculate with fractions.\<close>

typedef gf256 = "UNIV :: gf set"
  by simp

setup_lifting type_definition_gf256

instantiation gf256 :: field
begin

lift_definition zero_gf256 :: gf256 is 0 .
lift_definition one_gf256 :: gf256 is 1 .
lift_definition plus_gf256 :: "gf256 \<Rightarrow> gf256 \<Rightarrow> gf256" is "\<lambda>a b. a XOR b" .
lift_definition minus_gf256 :: "gf256 \<Rightarrow> gf256 \<Rightarrow> gf256" is "\<lambda>a b. a XOR b" .
lift_definition uminus_gf256 :: "gf256 \<Rightarrow> gf256" is "\<lambda>a. a" .
lift_definition times_gf256 :: "gf256 \<Rightarrow> gf256 \<Rightarrow> gf256" is "gf_mul GF256" .
lift_definition inverse_gf256 :: "gf256 \<Rightarrow> gf256" is "gf_div GF256 1" .
lift_definition divide_gf256 :: "gf256 \<Rightarrow> gf256 \<Rightarrow> gf256"
  is "\<lambda>a b. gf_mul GF256 a (gf_div GF256 1 b)" .

instance
proof
  fix a b c :: gf256
  show "a * b * c = a * (b * c)" by transfer (rule gf_mul_assoc)
  show "a * b = b * a" by transfer (rule gf_mul_comm)
  show "1 * a = a" by transfer simp
  show "a + b + c = a + (b + c)" by transfer (simp add: xor.assoc)
  show "a + b = b + a" by transfer (simp add: xor.commute)
  show "0 + a = a" by transfer simp
  show "- a + a = 0" by transfer simp
  show "a - b = a + - b" by transfer simp
  show "(a + b) * c = a * c + b * c" by transfer (rule gf_mul_xor_left)
  show "(0::gf256) \<noteq> 1" by transfer simp
  show "a \<noteq> 0 \<Longrightarrow> inverse a * a = 1"
    by transfer (simp add: gf_mul_comm gf_mul_inverse)
  show "a div b = a * inverse b" by transfer simp
  show "inverse (0::gf256) = 0" by transfer (rule GF256_div_zero)
qed

end







subsection \<open>Elimination on a Cauchy matrix\<close>

















subsection \<open>The inversion is total on invertible matrices\<close>













subsection \<open>What encode and decode write\<close>









subsection \<open>The coder for two data shards and one parity shard\<close>

lemma gf_pw_values_coder:
  shows gf_pw_2: "gf_pw 2 = 4"
    and gf_pw_22: "gf_pw 22 = 234"
    and gf_pw_23: "gf_pw 23 = 201"
    and gf_pw_26: "gf_pw 26 = 6"
    and gf_pw_50: "gf_pw 50 = 5"
    and gf_pw_60: "gf_pw 60 = 185"
    and gf_pw_84: "gf_pw 84 = 107"
    and gf_pw_85: "gf_pw 85 = 214"
    and gf_pw_108: "gf_pw 108 = 208"
    and gf_pw_110: "gf_pw 110 = 103"
    and gf_pw_132: "gf_pw 132 = 184"
    and gf_pw_133: "gf_pw 133 = 109"
    and gf_pw_134: "gf_pw 134 = 218"
    and gf_pw_145: "gf_pw 145 = 77"
    and gf_pw_157: "gf_pw 157 = 213"
    and gf_pw_199: "gf_pw 199 = 14"
    and gf_pw_205: "gf_pw 205 = 167"
    and gf_pw_223: "gf_pw 223 = 9"
    and gf_pw_224: "gf_pw 224 = 18"
    and gf_pw_225: "gf_pw 225 = 36"
    and gf_pw_229: "gf_pw 229 = 122"
    and gf_pw_249: "gf_pw 249 = 54"
    and gf_pw_253: "gf_pw 253 = 71"
  by (simp_all add: gf_pw_orbit [of _ 255] orbit_255)











subsection \<open>A zero column makes the inversion fail\<close>









subsection \<open>A call of encode and of decode on the coder for two data shards\<close>







subsection \<open>The coder of \<^verbatim>\<open>rs_new\<close> is systematic\<close>





end
